theory Spec2Isabelle
  imports
    Main
    "HOL-Library.Stream"
    "HOL-Library.Char_ord"
    "HOL-Library.List_Lexorder"
    "HOL-Library.Multiset"
    "HOL-Library.Sublist"
begin

section \<open>ArxivExplorer: the caching and history layer of \<^verbatim>\<open>server.py\<close>\<close>

text \<open>
  The server keeps two DynamoDB tables, \<^verbatim>\<open>papers\<close> (hash key \<^verbatim>\<open>url\<close>) and
  \<^verbatim>\<open>searches\<close> (hash key \<^verbatim>\<open>search_id\<close>), and talks to one external provider
  (Tavily). Everything outside the process is part of an explicit \<open>world\<close>: the two
  tables, the readings \<^verbatim>\<open>datetime.now()\<close> will give, whether each coming store call
  raises, and what the provider will answer. Every function of the source takes the
  world and returns its result together with the world it leaves behind, also when
  it raises. The \<^verbatim>\<open>print\<close> calls of the source have no effect on any of this and are
  left out.

  A Python \<^verbatim>\<open>str\<close> is a \<open>string\<close> holding its UTF-8 bytes.
\<close>

subsection \<open>Time: \<^verbatim>\<open>datetime.now()\<close>, \<^verbatim>\<open>strftime\<close> and \<^verbatim>\<open>isoformat\<close>\<close>

record datetime =
  year :: nat
  month :: nat
  day :: nat
  hour :: nat
  minute :: nat
  second :: nat
  microsecond :: nat

text \<open>
  What \<^verbatim>\<open>datetime.now()\<close> can read: the fields of a \<^verbatim>\<open>datetime\<close> are in their
  ranges, and the year has four digits.
\<close>

definition valid_datetime :: "datetime \<Rightarrow> bool" where
  "valid_datetime d \<longleftrightarrow>
     1000 \<le> year d \<and> year d \<le> 9999 \<and> 1 \<le> month d \<and> month d \<le> 12 \<and>
     1 \<le> day d \<and> day d \<le> 31 \<and> hour d < 24 \<and> minute d < 60 \<and> second d < 60 \<and>
     microsecond d < 1000000"

definition digit :: "nat \<Rightarrow> char" where
  "digit d = ''0123456789'' ! (d mod 10)"

fun str_nat :: "nat \<Rightarrow> string" where
  "str_nat n = (if n < 10 then [digit n] else str_nat (n div 10) @ [digit n])"

declare str_nat.simps [simp del]

text \<open>\<^verbatim>\<open>'%0kd' % n\<close>: at least \<open>k\<close> digits, padded with zeros on the left.\<close>

definition zfill :: "nat \<Rightarrow> nat \<Rightarrow> string" where
  "zfill k n = replicate (k - length (str_nat n)) (CHR ''0'') @ str_nat n"

text \<open>
  \<^verbatim>\<open>strftime('%Y%m%d_%H%M%S')\<close>, for a year of four digits: there \<^verbatim>\<open>%Y\<close> prints the
  same on every platform.
\<close>

definition strftime_id :: "datetime \<Rightarrow> string" where
  "strftime_id d =
     zfill 4 (year d) @ zfill 2 (month d) @ zfill 2 (day d) @ ''_'' @
     zfill 2 (hour d) @ zfill 2 (minute d) @ zfill 2 (second d)"

text \<open>\<^verbatim>\<open>isoformat()\<close> drops the fraction when the microsecond is 0.\<close>

definition isoformat :: "datetime \<Rightarrow> string" where
  "isoformat d =
     zfill 4 (year d) @ ''-'' @ zfill 2 (month d) @ ''-'' @ zfill 2 (day d) @ ''T'' @
     zfill 2 (hour d) @ '':'' @ zfill 2 (minute d) @ '':'' @ zfill 2 (second d) @
     (if microsecond d = 0 then [] else ''.'' @ zfill 6 (microsecond d))"

subsection \<open>\<^verbatim>\<open>str.strip()\<close>\<close>

text \<open>
  The code points Python's \<^verbatim>\<open>str.strip()\<close> removes (those with \<^verbatim>\<open>str.isspace\<close>), each
  as its UTF-8 bytes: U+0009..U+000D, U+001C..U+0020, U+0085, U+00A0, U+1680,
  U+2000..U+200A, U+2028, U+2029, U+202F, U+205F, U+3000.
\<close>

definition whitespace :: "string list" where
  "whitespace =
     [[CHR 0x09], [CHR 0x0A], [CHR 0x0B], [CHR 0x0C], [CHR 0x0D],
      [CHR 0x1C], [CHR 0x1D], [CHR 0x1E], [CHR 0x1F], [CHR 0x20],
      [CHR 0xC2, CHR 0x85], [CHR 0xC2, CHR 0xA0],
      [CHR 0xE1, CHR 0x9A, CHR 0x80],
      [CHR 0xE2, CHR 0x80, CHR 0x80], [CHR 0xE2, CHR 0x80, CHR 0x81],
      [CHR 0xE2, CHR 0x80, CHR 0x82], [CHR 0xE2, CHR 0x80, CHR 0x83],
      [CHR 0xE2, CHR 0x80, CHR 0x84], [CHR 0xE2, CHR 0x80, CHR 0x85],
      [CHR 0xE2, CHR 0x80, CHR 0x86], [CHR 0xE2, CHR 0x80, CHR 0x87],
      [CHR 0xE2, CHR 0x80, CHR 0x88], [CHR 0xE2, CHR 0x80, CHR 0x89],
      [CHR 0xE2, CHR 0x80, CHR 0x8A],
      [CHR 0xE2, CHR 0x80, CHR 0xA8], [CHR 0xE2, CHR 0x80, CHR 0xA9],
      [CHR 0xE2, CHR 0x80, CHR 0xAF], [CHR 0xE2, CHR 0x81, CHR 0x9F],
      [CHR 0xE3, CHR 0x80, CHR 0x80]]"

text \<open>
  \<open>drop_leading ps s\<close> removes from the front of \<open>s\<close> every occurrence of one of the
  byte sequences \<open>ps\<close>, until none starts the rest.
\<close>

fun drop_leading :: "string list \<Rightarrow> string \<Rightarrow> string" where
  "drop_leading ps [] = []"
| "drop_leading ps (c # cs) =
     (case find (\<lambda>p. p \<noteq> [] \<and> take (length p) (c # cs) = p) ps of
        None \<Rightarrow> c # cs
      | Some p \<Rightarrow> drop_leading ps (drop (length p - 1) cs))"

definition lstrip :: "string \<Rightarrow> string" where
  "lstrip s = drop_leading whitespace s"

text \<open>
  From the right the same bytes are matched backwards; in UTF-8 the bytes of a code
  point end a text only where that code point ends it.
\<close>

definition rstrip :: "string \<Rightarrow> string" where
  "rstrip s = rev (drop_leading (map rev whitespace) (rev s))"

definition strip :: "string \<Rightarrow> string" where
  "strip s = rstrip (lstrip s)"

subsection \<open>Records of the two tables\<close>

text \<open>
  An attribute that this layer writes as \<^verbatim>\<open>None\<close> or as a string: boto3 stores
  \<^verbatim>\<open>None\<close> as the DynamoDB type NULL and reads it back as \<^verbatim>\<open>None\<close>.
\<close>

datatype attr = Null | Str string

text \<open>
  An item of \<^verbatim>\<open>papers\<close>. The hash key \<^verbatim>\<open>url\<close> is on every item; for any other
  attribute \<open>None\<close> says that the item has no such key (\<^verbatim>\<open>item['title']\<close> raises
  \<^verbatim>\<open>KeyError\<close>, \<^verbatim>\<open>item.get('summary')\<close> is \<^verbatim>\<open>None\<close>). An attribute that is
  there has the type this layer writes it with: the tables have no other writer.
\<close>

record paper =
  p_url :: string
  p_title :: "string option"
  p_summary :: "attr option"
  p_timestamp :: "string option"

text \<open>One entry \<^verbatim>\<open>{"title": ..., "url": ...}\<close> of a result list.\<close>

record paper_data =
  pd_title :: string
  pd_url :: string

text \<open>An item of \<^verbatim>\<open>searches\<close>, with hash key \<^verbatim>\<open>search_id\<close>.\<close>

record search =
  s_search_id :: string
  s_query :: "string option"
  s_results :: "paper_data list option"
  s_timestamp :: "string option"

text \<open>\<^verbatim>\<open>bool(v)\<close> for what \<^verbatim>\<open>item.get('summary')\<close> returns.\<close>

fun truthy :: "attr option \<Rightarrow> bool" where
  "truthy None = False"
| "truthy (Some Null) = False"
| "truthy (Some (Str s)) = (s \<noteq> [])"

subsection \<open>The world\<close>

datatype error = StoreError | ProviderError | KeyError string

text \<open>One entry of Tavily's \<^verbatim>\<open>resp["results"]\<close>; \<open>None\<close> is a missing key.\<close>

record tavily_result =
  r_title :: "string option"
  r_url :: "string option"

text \<open>What the outside has seen of this process: writes that the store accepted and
  calls to the provider, in order.\<close>

datatype event =
    PutPaper paper
  | UpdateSummary string string
  | PutSearch search
  | TavilySearch string int
  | TavilyQna string

text \<open>
  A table is the list of its items in the order a scan walks them; the store promises
  nothing about that order. \<open>store_faults\<close> says for each coming call to the store
  whether it raises (the store is unreachable, or rejects the request), \<open>clock\<close> gives the
  coming readings of \<^verbatim>\<open>datetime.now()\<close>, and \<open>search_replies\<close> and \<open>qna_replies\<close>
  the coming answers of \<^verbatim>\<open>tavily.search\<close> (the \<^verbatim>\<open>"results"\<close> entry of the response,
  if it has one) and of \<^verbatim>\<open>tavily.qna_search\<close>.
\<close>

record world =
  papers_table :: "paper list"
  searches_table :: "search list"
  store_faults :: "bool stream"
  clock :: "datetime stream"
  search_replies :: "(error + tavily_result list option) stream"
  qna_replies :: "(error + string) stream"
  trace :: "event list"

definition now :: "world \<Rightarrow> datetime \<times> world" where
  "now w = (shd (clock w), w\<lparr>clock := stl (clock w)\<rparr>)"

subsection \<open>The store: \<^verbatim>\<open>put_item\<close>, \<^verbatim>\<open>get_item\<close>, \<^verbatim>\<open>update_item\<close>, \<^verbatim>\<open>scan\<close>\<close>

text \<open>\<^verbatim>\<open>put_item\<close> replaces the item that has the key, or adds the item.\<close>

fun put_by :: "('a \<Rightarrow> string) \<Rightarrow> 'a \<Rightarrow> 'a list \<Rightarrow> 'a list" where
  "put_by key item [] = [item]"
| "put_by key item (x # xs) =
     (if key x = key item then item # xs else x # put_by key item xs)"

definition lookup_by :: "('a \<Rightarrow> string) \<Rightarrow> string \<Rightarrow> 'a list \<Rightarrow> 'a option" where
  "lookup_by key k tbl = find (\<lambda>x. key x = k) tbl"

definition papers_put_item :: "paper \<Rightarrow> world \<Rightarrow> (error + unit) \<times> world" where
  "papers_put_item item w =
     (if shd (store_faults w)
      then (Inl StoreError, w\<lparr>store_faults := stl (store_faults w)\<rparr>)
      else (Inr (), w\<lparr>papers_table := put_by p_url item (papers_table w),
                       store_faults := stl (store_faults w),
                       trace := trace w @ [PutPaper item]\<rparr>))"

definition searches_put_item :: "search \<Rightarrow> world \<Rightarrow> (error + unit) \<times> world" where
  "searches_put_item item w =
     (if shd (store_faults w)
      then (Inl StoreError, w\<lparr>store_faults := stl (store_faults w)\<rparr>)
      else (Inr (), w\<lparr>searches_table := put_by s_search_id item (searches_table w),
                       store_faults := stl (store_faults w),
                       trace := trace w @ [PutSearch item]\<rparr>))"

text \<open>\<^verbatim>\<open>get_item(Key={'url': url})\<close>; the result is \<^verbatim>\<open>response.get('Item')\<close>.\<close>

definition papers_get_item :: "string \<Rightarrow> world \<Rightarrow> (error + paper option) \<times> world" where
  "papers_get_item url w =
     (if shd (store_faults w)
      then (Inl StoreError, w\<lparr>store_faults := stl (store_faults w)\<rparr>)
      else (Inr (lookup_by p_url url (papers_table w)),
            w\<lparr>store_faults := stl (store_faults w)\<rparr>))"

text \<open>
  \<^verbatim>\<open>update_item(Key={'url': url}, UpdateExpression='SET summary = :summary', ...)\<close>
  sets that one attribute of the item with the key; DynamoDB creates the item, with
  the key and the attribute only, when there is none.
\<close>

definition set_summary :: "string \<Rightarrow> string \<Rightarrow> paper list \<Rightarrow> paper list" where
  "set_summary url summary tbl =
     (case lookup_by p_url url tbl of
        None \<Rightarrow> tbl @ [\<lparr>p_url = url, p_title = None,
                        p_summary = Some (Str summary), p_timestamp = None\<rparr>]
      | Some p \<Rightarrow> put_by p_url (p\<lparr>p_summary := Some (Str summary)\<rparr>) tbl)"

definition papers_update_item :: "string \<Rightarrow> string \<Rightarrow> world \<Rightarrow> (error + unit) \<times> world" where
  "papers_update_item url summary w =
     (if shd (store_faults w)
      then (Inl StoreError, w\<lparr>store_faults := stl (store_faults w)\<rparr>)
      else (Inr (), w\<lparr>papers_table := set_summary url summary (papers_table w),
                       store_faults := stl (store_faults w),
                       trace := trace w @ [UpdateSummary url summary]\<rparr>))"

text \<open>
  \<^verbatim>\<open>scan(Limit=limit)\<close>: the first \<open>limit\<close> items the scan meets. (The client library
  rejects a limit below 1; the two functions that scan then return the empty list,
  which is also what they return here. That the store may end a page early, at 1 MB
  of data, is not modelled.)
\<close>

definition papers_scan :: "int \<Rightarrow> world \<Rightarrow> (error + paper list) \<times> world" where
  "papers_scan limit w =
     (if shd (store_faults w)
      then (Inl StoreError, w\<lparr>store_faults := stl (store_faults w)\<rparr>)
      else (Inr (take (nat limit) (papers_table w)),
            w\<lparr>store_faults := stl (store_faults w)\<rparr>))"

definition searches_scan :: "int \<Rightarrow> world \<Rightarrow> (error + search list) \<times> world" where
  "searches_scan limit w =
     (if shd (store_faults w)
      then (Inl StoreError, w\<lparr>store_faults := stl (store_faults w)\<rparr>)
      else (Inr (take (nat limit) (searches_table w)),
            w\<lparr>store_faults := stl (store_faults w)\<rparr>))"

subsection \<open>The provider\<close>

definition tavily_search ::
  "string \<Rightarrow> int \<Rightarrow> world \<Rightarrow> (error + tavily_result list option) \<times> world" where
  "tavily_search query max_results w =
     (shd (search_replies w),
      w\<lparr>search_replies := stl (search_replies w),
        trace := trace w @ [TavilySearch query max_results]\<rparr>)"

definition tavily_qna_search :: "string \<Rightarrow> world \<Rightarrow> (error + string) \<times> world" where
  "tavily_qna_search query w =
     (shd (qna_replies w),
      w\<lparr>qna_replies := stl (qna_replies w),
        trace := trace w @ [TavilyQna query]\<rparr>)"

subsection \<open>Helper functions of the source\<close>

text \<open>\<^verbatim>\<open>save_paper(title, url, summary=None)\<close>: the item is built, reading the clock,
  and then put.\<close>

definition save_paper :: "string \<Rightarrow> string \<Rightarrow> attr \<Rightarrow> world \<Rightarrow> (error + unit) \<times> world" where
  "save_paper title url summary w =
     (let (t, w1) = now w in
      papers_put_item
        \<lparr>p_url = url, p_title = Some title, p_summary = Some summary,
         p_timestamp = Some (isoformat t)\<rparr> w1)"

text \<open>\<^verbatim>\<open>get_paper\<close> turns every exception into \<^verbatim>\<open>None\<close>.\<close>

definition get_paper :: "string \<Rightarrow> world \<Rightarrow> paper option \<times> world" where
  "get_paper url w =
     (case papers_get_item url w of
        (Inl e, w1) \<Rightarrow> (None, w1)
      | (Inr item, w1) \<Rightarrow> (item, w1))"

text \<open>\<^verbatim>\<open>save_search\<close> reads the clock twice: for the identifier, then for the item.\<close>

definition save_search ::
  "string \<Rightarrow> paper_data list \<Rightarrow> world \<Rightarrow> (error + string) \<times> world" where
  "save_search query results w =
     (let (t1, w1) = now w;
          search_id = query @ ''_'' @ strftime_id t1;
          (t2, w2) = now w1
      in case searches_put_item
                \<lparr>s_search_id = search_id, s_query = Some query,
                 s_results = Some results, s_timestamp = Some (isoformat t2)\<rparr> w2 of
           (Inl e, w3) \<Rightarrow> (Inl e, w3)
         | (Inr u, w3) \<Rightarrow> (Inr search_id, w3))"

subsection \<open>\<^verbatim>\<open>search_arxiv\<close>\<close>

text \<open>The loop over \<^verbatim>\<open>resp.get("results", [])\<close>; \<open>results\<close> is the list built so far.\<close>

fun search_loop ::
  "tavily_result list \<Rightarrow> paper_data list \<Rightarrow> world \<Rightarrow> (error + paper_data list) \<times> world" where
  "search_loop [] results w = (Inr results, w)"
| "search_loop (r # rs) results w =
     (case r_title r of
        None \<Rightarrow> (Inl (KeyError ''title''), w)
      | Some t \<Rightarrow>
     (case r_url r of
        None \<Rightarrow> (Inl (KeyError ''url''), w)
      | Some u \<Rightarrow>
     (let paper_data = \<lparr>pd_title = strip t, pd_url = u\<rparr> in
      case save_paper (pd_title paper_data) (pd_url paper_data) Null w of
        (Inl e, w1) \<Rightarrow> (Inl e, w1)
      | (Inr _, w1) \<Rightarrow> search_loop rs (results @ [paper_data]) w1)))"

definition search_arxiv ::
  "string \<Rightarrow> int \<Rightarrow> world \<Rightarrow> (error + paper_data list) \<times> world" where
  "search_arxiv query max_results w =
     (case tavily_search (''site:arxiv.org '' @ query) max_results w of
        (Inl e, w1) \<Rightarrow> (Inl e, w1)
      | (Inr resp, w1) \<Rightarrow>
     (case search_loop (case resp of None \<Rightarrow> [] | Some rs \<Rightarrow> rs) [] w1 of
        (Inl e, w2) \<Rightarrow> (Inl e, w2)
      | (Inr results, w2) \<Rightarrow>
     (case save_search query results w2 of
        (Inl e, w3) \<Rightarrow> (Inl e, w3)
      | (Inr search_id, w3) \<Rightarrow> (Inr results, w3))))"

subsection \<open>\<^verbatim>\<open>summarize_paper\<close>\<close>

text \<open>
  \<^verbatim>\<open>cached_paper and cached_paper.get('summary')\<close>: the cached summary when that is
  true. An item has at least its key, so the dictionary itself is true.
\<close>

fun cached_summary :: "paper option \<Rightarrow> string option" where
  "cached_summary None = None"
| "cached_summary (Some p) =
     (case p_summary p of
        Some (Str s) \<Rightarrow> (if s \<noteq> [] then Some s else None)
      | _ \<Rightarrow> None)"

text \<open>
  The last statement of \<^verbatim>\<open>summarize_paper\<close> before its return, which the
  specification names \<open>attachSummary\<close>: a field update when the lookup found an item,
  \<^verbatim>\<open>save_paper("Unknown Title", paper_url, summary)\<close> when it found none.
\<close>

definition attach_summary ::
  "paper option \<Rightarrow> string \<Rightarrow> string \<Rightarrow> world \<Rightarrow> (error + unit) \<times> world" where
  "attach_summary cached_paper paper_url summary w =
     (case cached_paper of
        Some p \<Rightarrow> papers_update_item paper_url summary w
      | None \<Rightarrow> save_paper ''Unknown Title'' paper_url (Str summary) w)"

definition summarize_paper :: "string \<Rightarrow> world \<Rightarrow> (error + string) \<times> world" where
  "summarize_paper paper_url w =
     (let (cached_paper, w1) = get_paper paper_url w in
      case cached_summary cached_paper of
        Some s \<Rightarrow> (Inr s, w1)
      | None \<Rightarrow>
     (let prompt = ''Summarize the key contributions of this ArXiv paper: '' @ paper_url in
      case tavily_qna_search prompt w1 of
        (Inl e, w2) \<Rightarrow> (Inl e, w2)
      | (Inr summary, w2) \<Rightarrow>
     (case attach_summary cached_paper paper_url summary w2 of
        (Inl e, w3) \<Rightarrow> (Inl e, w3)
      | (Inr _, w3) \<Rightarrow> (Inr summary, w3))))"

subsection \<open>\<^verbatim>\<open>get_search_history\<close> and \<^verbatim>\<open>get_saved_papers\<close>\<close>

fun map_err :: "('a \<Rightarrow> error + 'b) \<Rightarrow> 'a list \<Rightarrow> error + 'b list" where
  "map_err f [] = Inr []"
| "map_err f (x # xs) =
     (case f x of
        Inl e \<Rightarrow> Inl e
      | Inr y \<Rightarrow> (case map_err f xs of Inl e \<Rightarrow> Inl e | Inr ys \<Rightarrow> Inr (y # ys)))"

text \<open>
  \<^verbatim>\<open>sorted(xs, key=..., reverse=True)\<close> on keys already computed: descending, and items
  with equal keys keep their order. CPython reverses the list, sorts it stably, and
  reverses it again.
\<close>

definition sorted_reverse :: "(string \<times> 'a) list \<Rightarrow> (string \<times> 'a) list" where
  "sorted_reverse kxs = rev (sort_key fst (rev kxs))"

definition timestamp_key :: "search \<Rightarrow> error + string" where
  "timestamp_key x =
     (case s_timestamp x of None \<Rightarrow> Inl (KeyError ''timestamp'') | Some t \<Rightarrow> Inr t)"

text \<open>\<^verbatim>\<open>sorted(items, key=lambda x: x['timestamp'], reverse=True)\<close>: the key of every
  item is computed first.\<close>

definition sorted_by_timestamp :: "search list \<Rightarrow> error + search list" where
  "sorted_by_timestamp items =
     (case map_err timestamp_key items of
        Inl e \<Rightarrow> Inl e
      | Inr keys \<Rightarrow> Inr (map snd (sorted_reverse (zip keys items))))"

record search_view =
  sv_search_id :: string
  sv_query :: string
  sv_timestamp :: string
  sv_result_count :: nat

definition search_view_of :: "search \<Rightarrow> error + search_view" where
  "search_view_of item =
     (case s_query item of
        None \<Rightarrow> Inl (KeyError ''query'')
      | Some q \<Rightarrow>
     (case s_timestamp item of
        None \<Rightarrow> Inl (KeyError ''timestamp'')
      | Some t \<Rightarrow>
          Inr \<lparr>sv_search_id = s_search_id item, sv_query = q, sv_timestamp = t,
               sv_result_count =
                 length (case s_results item of None \<Rightarrow> [] | Some rs \<Rightarrow> rs)\<rparr>))"

text \<open>The body of the \<^verbatim>\<open>try\<close> in \<^verbatim>\<open>get_search_history\<close>.\<close>

definition get_search_history_try ::
  "int \<Rightarrow> world \<Rightarrow> (error + search_view list) \<times> world" where
  "get_search_history_try limit w =
     (case searches_scan limit w of
        (Inl e, w1) \<Rightarrow> (Inl e, w1)
      | (Inr items, w1) \<Rightarrow>
     (case sorted_by_timestamp items of
        Inl e \<Rightarrow> (Inl e, w1)
      | Inr sorted_items \<Rightarrow> (map_err search_view_of sorted_items, w1)))"

text \<open>\<^verbatim>\<open>except Exception\<close>: whatever was raised, the result is \<^verbatim>\<open>[]\<close>.\<close>

definition get_search_history :: "int \<Rightarrow> world \<Rightarrow> search_view list \<times> world" where
  "get_search_history limit w =
     (case get_search_history_try limit w of
        (Inl e, w1) \<Rightarrow> ([], w1)
      | (Inr views, w1) \<Rightarrow> (views, w1))"

record paper_view =
  pv_title :: string
  pv_url :: string
  pv_has_summary :: bool
  pv_timestamp :: string

definition paper_view_of :: "paper \<Rightarrow> error + paper_view" where
  "paper_view_of item =
     (case p_title item of
        None \<Rightarrow> Inl (KeyError ''title'')
      | Some t \<Rightarrow>
     (case p_timestamp item of
        None \<Rightarrow> Inl (KeyError ''timestamp'')
      | Some ts \<Rightarrow>
          Inr \<lparr>pv_title = t, pv_url = p_url item,
               pv_has_summary = truthy (p_summary item), pv_timestamp = ts\<rparr>))"

text \<open>The body of the \<^verbatim>\<open>try\<close> in \<^verbatim>\<open>get_saved_papers\<close>.\<close>

definition get_saved_papers_try ::
  "int \<Rightarrow> world \<Rightarrow> (error + paper_view list) \<times> world" where
  "get_saved_papers_try limit w =
     (case papers_scan limit w of
        (Inl e, w1) \<Rightarrow> (Inl e, w1)
      | (Inr items, w1) \<Rightarrow> (map_err paper_view_of items, w1))"

definition get_saved_papers :: "int \<Rightarrow> world \<Rightarrow> paper_view list \<times> world" where
  "get_saved_papers limit w =
     (case get_saved_papers_try limit w of
        (Inl e, w1) \<Rightarrow> ([], w1)
      | (Inr views, w1) \<Rightarrow> (views, w1))"

subsection \<open>Observing a call\<close>

text \<open>Between \<open>w\<close> and \<open>w'\<close> nothing was written to either table and the provider was
  not called.\<close>

definition untouched :: "world \<Rightarrow> world \<Rightarrow> bool" where
  "untouched w w' \<longleftrightarrow>
     papers_table w' = papers_table w \<and> searches_table w' = searches_table w \<and>
     trace w' = trace w \<and> qna_replies w' = qna_replies w \<and>
     search_replies w' = search_replies w"

subsection \<open>Complete items, and the calls of this layer\<close>

text \<open>An item of \<^verbatim>\<open>papers\<close> that has, beside its key \<^verbatim>\<open>url\<close>, a \<^verbatim>\<open>title\<close> and a
  \<^verbatim>\<open>timestamp\<close>.\<close>

definition paper_wf :: "paper \<Rightarrow> bool" where
  "paper_wf p \<longleftrightarrow> p_title p \<noteq> None \<and> p_timestamp p \<noteq> None"

definition papers_wf :: "world \<Rightarrow> bool" where
  "papers_wf w \<longleftrightarrow> list_all paper_wf (papers_table w)"

text \<open>An item of \<^verbatim>\<open>searches\<close> that has, beside its key, a \<^verbatim>\<open>query\<close> and a
  \<^verbatim>\<open>timestamp\<close>.\<close>

definition search_wf :: "search \<Rightarrow> bool" where
  "search_wf x \<longleftrightarrow> s_query x \<noteq> None \<and> s_timestamp x \<noteq> None"

definition searches_wf :: "world \<Rightarrow> bool" where
  "searches_wf w \<longleftrightarrow> list_all search_wf (searches_table w)"

text \<open>The functions of \<^verbatim>\<open>server.py\<close> that touch the store, and the world each leaves
  behind, whether it returns or raises.\<close>

datatype call =
    SavePaper string string attr
  | GetPaper string
  | SaveSearch string "paper_data list"
  | SearchArxiv string int
  | SummarizePaper string
  | GetSearchHistory int
  | GetSavedPapers int

fun after :: "call \<Rightarrow> world \<Rightarrow> world" where
  "after (SavePaper title url summary) w = snd (save_paper title url summary w)"
| "after (GetPaper url) w = snd (get_paper url w)"
| "after (SaveSearch query results) w = snd (save_search query results w)"
| "after (SearchArxiv query max_results) w = snd (search_arxiv query max_results w)"
| "after (SummarizePaper paper_url) w = snd (summarize_paper paper_url w)"
| "after (GetSearchHistory limit) w = snd (get_search_history limit w)"
| "after (GetSavedPapers limit) w = snd (get_saved_papers limit w)"

subsection \<open>Example worlds\<close>

text \<open>A clock that reads 17 May 2024, 09:03:07.000123 at every call.\<close>

definition d0 :: datetime where
  "d0 = \<lparr>year = 2024, month = 5, day = 17, hour = 9, minute = 3, second = 7,
         microsecond = 123\<rparr>"

text \<open>Empty tables, a store that answers every call, a provider that always raises.\<close>

definition w0 :: world where
  "w0 = \<lparr>papers_table = [], searches_table = [], store_faults = sconst False,
         clock = sconst d0, search_replies = sconst (Inl ProviderError),
         qna_replies = sconst (Inl ProviderError), trace = []\<rparr>"

text \<open>Two stored papers, the first with a summary, and a provider that answers every
  question with the same sentence.\<close>

definition paper_a :: paper where
  "paper_a = \<lparr>p_url = ''arxiv.org/abs/1706.03762'', p_title = Some ''Attention Is All You Need'',
              p_summary = Some (Str ''Introduces the Transformer.''),
              p_timestamp = Some ''2024-01-01T00:00:00''\<rparr>"

definition paper_b :: paper where
  "paper_b = \<lparr>p_url = ''arxiv.org/abs/1512.03385'', p_title = Some ''Deep Residual Learning'',
              p_summary = Some Null, p_timestamp = Some ''2024-02-01T00:00:00''\<rparr>"

definition w_papers :: world where
  "w_papers = w0\<lparr>papers_table := [paper_a, paper_b],
                 qna_replies := sconst (Inr ''Residual connections.'')\<rparr>"

text \<open>The two stored papers, and a provider that answers every search with two results,
  the first of them the stored paper with a summary.\<close>

definition w_search :: world where
  "w_search = w_papers\<lparr>search_replies :=
      sconst (Inr (Some [\<lparr>r_title = Some ''  Attention Is All You Need '',
                          r_url = Some ''arxiv.org/abs/1706.03762''\<rparr>,
                        \<lparr>r_title = Some ''Adam'', r_url = Some ''arxiv.org/abs/1412.6980''\<rparr>]))\<rparr>"

text \<open>Three recorded searches; the scan meets the oldest first and the newest last.\<close>

definition search_old :: search where
  "search_old = \<lparr>s_search_id = ''pruning_20240101_000000'', s_query = Some ''pruning'',
                 s_results = Some [\<lparr>pd_title = ''Attention Is All You Need'',
                                    pd_url = ''arxiv.org/abs/1706.03762''\<rparr>],
                 s_timestamp = Some ''2024-01-01T00:00:00''\<rparr>"

definition search_new :: search where
  "search_new = \<lparr>s_search_id = ''resnet_20240301_000000'', s_query = Some ''resnet'',
                 s_results = Some [], s_timestamp = Some ''2024-03-01T00:00:00''\<rparr>"

definition search_mid :: search where
  "search_mid = \<lparr>s_search_id = ''safety_20240201_000000'', s_query = Some ''safety'',
                 s_results = None, s_timestamp = Some ''2024-02-01T00:00:00''\<rparr>"

definition w_searches :: world where
  "w_searches = w0\<lparr>searches_table := [search_old, search_mid, search_new]\<rparr>"

section \<open>Properties\<close>

subsection \<open>Basic facts\<close>

lemma strftime_id_d0: "strftime_id d0 = ''20240517_090307''"
  unfolding d0_def by code_simp

lemma isoformat_d0: "isoformat d0 = ''2024-05-17T09:03:07.000123''"
  unfolding d0_def by code_simp

lemma lookup_put_same:
  "key item = k \<Longrightarrow> lookup_by key k (put_by key item tbl) = Some item"
  by (induction tbl) (auto simp: lookup_by_def)

lemma lookup_put_other:
  "k \<noteq> key item \<Longrightarrow> lookup_by key k (put_by key item tbl) = lookup_by key k tbl"
  by (induction tbl) (auto simp: lookup_by_def)

lemma strftime_id_seconds: "strftime_id (d\<lparr>microsecond := m\<rparr>) = strftime_id d"
  by (simp add: strftime_id_def)

lemma lookup_by_in_set: "lookup_by key k tbl = Some x \<Longrightarrow> x \<in> set tbl \<and> key x = k"
  by (auto simp: lookup_by_def find_Some_iff)

lemma get_paper_eq:
  "get_paper u w =
     (if shd (store_faults w) then None else lookup_by p_url u (papers_table w),
      w\<lparr>store_faults := stl (store_faults w)\<rparr>)"
  by (simp add: get_paper_def papers_get_item_def)

lemma save_paper_eq:
  "save_paper t u s w =
     (if shd (store_faults w)
      then (Inl StoreError, w\<lparr>clock := stl (clock w), store_faults := stl (store_faults w)\<rparr>)
      else (Inr (),
            w\<lparr>papers_table :=
                 put_by p_url \<lparr>p_url = u, p_title = Some t, p_summary = Some s,
                                p_timestamp = Some (isoformat (shd (clock w)))\<rparr> (papers_table w),
              store_faults := stl (store_faults w),
              clock := stl (clock w),
              trace := trace w @ [PutPaper \<lparr>p_url = u, p_title = Some t, p_summary = Some s,
                                p_timestamp = Some (isoformat (shd (clock w)))\<rparr>]\<rparr>))"
  by (simp add: save_paper_def now_def papers_put_item_def)

lemma cached_summary_Some:
  "cached_summary c = Some s \<longleftrightarrow> (\<exists>p. c = Some p \<and> p_summary p = Some (Str s) \<and> s \<noteq> [])"
  by (cases c) (auto split: option.splits attr.splits)

text \<open>The keys of a table stay distinct.\<close>

lemma put_by_keys: "set (map key (put_by key item tbl)) = insert (key item) (set (map key tbl))"
  by (induction tbl) auto

lemma put_by_distinct:
  "distinct (map key tbl) \<Longrightarrow> distinct (map key (put_by key item tbl))"
proof (induction tbl)
  case Nil
  show ?case by simp
next
  case (Cons x xs)
  then have "key x \<notin> set (map key (put_by key item xs))" if "key x \<noteq> key item"
    using that unfolding put_by_keys by auto
  with Cons show ?case by auto
qed

lemma lookup_by_None: "lookup_by key k tbl = None \<longleftrightarrow> k \<notin> set (map key tbl)"
  by (auto simp: lookup_by_def find_None_iff)

lemma set_summary_distinct:
  "distinct (map p_url tbl) \<Longrightarrow> distinct (map p_url (set_summary u s tbl))"
  by (auto simp: set_summary_def put_by_distinct lookup_by_None split: option.splits)

subsection \<open>The printed time\<close>

text \<open>
  A character is given by its code: 48 to 57 are the digits, 95 is the underscore.
  For a time that \<^verbatim>\<open>datetime.now()\<close> can read, the identifier's stamp is the year in
  four digits, month and day in two each, an underscore, and hour, minute and second
  in two digits each; two such times have the same stamp exactly when they agree
  down to the second.
\<close>

lemma digit_code: "of_char (digit d) = (48 + d mod 10 :: nat)"
proof -
  define m where "m = d mod 10"
  have "m < 10" by (simp add: m_def)
  then have "m = 0 \<or> m = 1 \<or> m = 2 \<or> m = 3 \<or> m = 4 \<or> m = 5 \<or> m = 6 \<or> m = 7
      \<or> m = 8 \<or> m = 9"
    by arith
  then have "of_char (''0123456789'' ! m) = (48 + m :: nat)"
    by (elim disjE) simp_all
  then show ?thesis by (simp add: digit_def m_def)
qed

lemma digit_char: "digit d = char_of (48 + d mod 10)"
  by (metis digit_code char_of_char)

lemma str_nat_1: "n < 10 \<Longrightarrow> str_nat n = [digit n]"
  by (simp add: str_nat.simps)

lemma str_nat_2: "10 \<le> n \<Longrightarrow> n < 100 \<Longrightarrow> str_nat n = [digit (n div 10), digit n]"
  by (subst str_nat.simps) (simp add: str_nat_1)

lemma str_nat_3: "100 \<le> n \<Longrightarrow> n < 1000 \<Longrightarrow> str_nat n = [digit (n div 100), digit (n div 10), digit n]"
  by (subst str_nat.simps) (simp add: str_nat_2 div_mult2_eq [symmetric])

lemma str_nat_4: "1000 \<le> n \<Longrightarrow> n < 10000 \<Longrightarrow>
   str_nat n = [digit (n div 1000), digit (n div 100), digit (n div 10), digit n]"
  by (subst str_nat.simps) (simp add: str_nat_3 div_mult2_eq [symmetric])

lemma digit_zero: "digit 0 = CHR ''0''"
  by (simp add: digit_def)

lemma zfill_2: "n < 100 \<Longrightarrow> zfill 2 n = [digit (n div 10), digit n]"
  by (cases "n < 10") (simp_all add: zfill_def str_nat_1 str_nat_2 digit_zero)

lemma zfill_4: "1000 \<le> n \<Longrightarrow> n < 10000 \<Longrightarrow>
   zfill 4 n = [digit (n div 1000), digit (n div 100), digit (n div 10), digit n]"
  by (simp add: zfill_def str_nat_4)


lemma strftime_id_layout:
  assumes "valid_datetime d"
  shows "map of_char (strftime_id d) =
     map (\<lambda>n. 48 + n mod 10)
       [year d div 1000, year d div 100, year d div 10, year d,
        month d div 10, month d, day d div 10, day d]
     @ [95 :: nat] @
     map (\<lambda>n. 48 + n mod 10)
       [hour d div 10, hour d, minute d div 10, minute d, second d div 10, second d]"
  using assms
  by (simp add: valid_datetime_def strftime_id_def zfill_2 zfill_4 digit_code)

lemma decimal_2: "n < 100 \<Longrightarrow> n = (n div 10 mod 10) * 10 + n mod 10" for n :: nat
  by simp

lemma decimal_4:
  "n < 10000 \<Longrightarrow>
     n = (n div 1000 mod 10) * 1000 + (n div 100 mod 10) * 100 + (n div 10 mod 10) * 10 + n mod 10"
  for n :: nat
proof -
  assume "n < 10000"
  then have a: "n div 1000 mod 10 = n div 1000" by simp
  have b: "n div 100 = n div 1000 * 10 + n div 100 mod 10"
    using div_mult_mod_eq [of "n div 100" 10] by (simp add: div_mult2_eq [symmetric])
  have c: "n div 10 = n div 100 * 10 + n div 10 mod 10"
    using div_mult_mod_eq [of "n div 10" 10] by (simp add: div_mult2_eq [symmetric])
  have d: "n = n div 10 * 10 + n mod 10" by simp
  from a b c d show ?thesis by linarith
qed

lemma strftime_id_same_second:
  assumes "valid_datetime d" and "valid_datetime d'"
  shows "strftime_id d = strftime_id d' \<longleftrightarrow>
     year d = year d' \<and> month d = month d' \<and> day d = day d' \<and>
     hour d = hour d' \<and> minute d = minute d' \<and> second d = second d'"
proof
  assume "strftime_id d = strftime_id d'"
  then have "map of_char (strftime_id d) = (map of_char (strftime_id d') :: nat list)"
    by simp
  then have e: "year d div 1000 mod 10 = year d' div 1000 mod 10"
      "year d div 100 mod 10 = year d' div 100 mod 10"
      "year d div 10 mod 10 = year d' div 10 mod 10"
      "year d mod 10 = year d' mod 10"
      "month d div 10 mod 10 = month d' div 10 mod 10" "month d mod 10 = month d' mod 10"
      "day d div 10 mod 10 = day d' div 10 mod 10" "day d mod 10 = day d' mod 10"
      "hour d div 10 mod 10 = hour d' div 10 mod 10" "hour d mod 10 = hour d' mod 10"
      "minute d div 10 mod 10 = minute d' div 10 mod 10" "minute d mod 10 = minute d' mod 10"
      "second d div 10 mod 10 = second d' div 10 mod 10" "second d mod 10 = second d' mod 10"
    unfolding strftime_id_layout [OF assms(1)] strftime_id_layout [OF assms(2)] by simp_all
  have b: "year d < 10000" "year d' < 10000" "month d < 100" "month d' < 100"
      "day d < 100" "day d' < 100" "hour d < 100" "hour d' < 100"
      "minute d < 100" "minute d' < 100" "second d < 100" "second d' < 100"
    using assms by (simp_all add: valid_datetime_def)
  have "year d = year d'"
    using decimal_4 [OF b(1)] decimal_4 [OF b(2)] e(1-4) by simp
  moreover have "month d = month d'"
    using decimal_2 [OF b(3)] decimal_2 [OF b(4)] e(5,6) by simp
  moreover have "day d = day d'"
    using decimal_2 [OF b(5)] decimal_2 [OF b(6)] e(7,8) by simp
  moreover have "hour d = hour d'"
    using decimal_2 [OF b(7)] decimal_2 [OF b(8)] e(9,10) by simp
  moreover have "minute d = minute d'"
    using decimal_2 [OF b(9)] decimal_2 [OF b(10)] e(11,12) by simp
  moreover have "second d = second d'"
    using decimal_2 [OF b(11)] decimal_2 [OF b(12)] e(13,14) by simp
  ultimately show "year d = year d' \<and> month d = month d' \<and> day d = day d' \<and>
     hour d = hour d' \<and> minute d = minute d' \<and> second d = second d'"
    by simp
next
  assume "year d = year d' \<and> month d = month d' \<and> day d = day d' \<and>
     hour d = hour d' \<and> minute d = minute d' \<and> second d = second d'"
  then show "strftime_id d = strftime_id d'"
    by (simp add: strftime_id_def)
qed

subsection \<open>What \<open>strip\<close> removes\<close>

lemma drop_leading_removed:
  "\<exists>qs. set qs \<subseteq> set ps \<and> s = concat qs @ drop_leading ps s"
proof (induction ps s rule: drop_leading.induct)
  case (1 ps)
  show ?case by (intro exI [of _ "[]"]) simp
next
  case (2 ps c cs)
  show ?case
  proof (cases "find (\<lambda>p. p \<noteq> [] \<and> take (length p) (c # cs) = p) ps")
    case None
    then show ?thesis by (intro exI [of _ "[]"]) simp
  next
    case (Some p)
    then have p: "p \<in> set ps" "p \<noteq> []" "take (length p) (c # cs) = p"
      by (auto simp: find_Some_iff)
    from p(2) have d: "drop (length p) (c # cs) = drop (length p - 1) cs"
      by (cases p) simp_all
    from 2 [OF Some] obtain qs where qs: "set qs \<subseteq> set ps"
        "drop (length p - 1) cs = concat qs @ drop_leading ps (drop (length p - 1) cs)"
      by blast
    have dl: "drop_leading ps (c # cs) = drop_leading ps (drop (length p - 1) cs)"
      using Some by simp
    have "c # cs = p @ drop (length p) (c # cs)"
      using p(3) append_take_drop_id [of "length p" "c # cs"] by simp
    then have "c # cs = p @ drop (length p - 1) cs"
      unfolding d .
    then have "c # cs = p @ concat qs @ drop_leading ps (drop (length p - 1) cs)"
      using qs(2) by metis
    then have "c # cs = concat (p # qs) @ drop_leading ps (c # cs)"
      unfolding dl by simp
    with qs(1) p(1) show ?thesis
      by (intro exI [of _ "p # qs"]) simp
  qed
qed

lemma drop_leading_done:
  "q \<in> set ps \<Longrightarrow> q \<noteq> [] \<Longrightarrow> \<not> prefix q (drop_leading ps s)"
proof (induction ps s rule: drop_leading.induct)
  case (1 ps)
  then show ?case by simp
next
  case (2 ps c cs)
  show ?case
  proof (cases "find (\<lambda>p. p \<noteq> [] \<and> take (length p) (c # cs) = p) ps")
    case None
    have "\<not> prefix q (c # cs)"
    proof
      assume "prefix q (c # cs)"
      then have "take (length q) (c # cs) = q" by (auto simp: prefix_def)
      with 2(2,3) None show False by (auto simp: find_None_iff)
    qed
    with None show ?thesis by simp
  next
    case (Some p)
    with 2 show ?thesis by simp
  qed
qed

lemma whitespace_nonempty: "p \<in> set whitespace \<Longrightarrow> p \<noteq> []"
  by (auto simp: whitespace_def)

text \<open>What \<open>strip\<close> returns is the text without a run of whitespace at its front and
  one at its end, and neither begins nor ends with whitespace.\<close>

lemma strip_removed:
  "\<exists>ls rs. set ls \<subseteq> set whitespace \<and> set rs \<subseteq> set whitespace
      \<and> s = concat ls @ strip s @ concat rs"
proof -
  obtain ls where ls: "set ls \<subseteq> set whitespace" "s = concat ls @ lstrip s"
    unfolding lstrip_def using drop_leading_removed by blast
  obtain qs where qs: "set qs \<subseteq> set (map rev whitespace)"
      "rev (lstrip s) = concat qs @ drop_leading (map rev whitespace) (rev (lstrip s))"
    using drop_leading_removed by blast
  have "lstrip s = rev (rev (lstrip s))" by simp
  also have "\<dots> = strip s @ rev (concat qs)"
    by (subst qs(2)) (simp add: strip_def rstrip_def)
  also have "rev (concat qs) = concat (map rev (rev qs))"
    by (simp add: rev_concat)
  finally have "lstrip s = strip s @ concat (map rev (rev qs))" .
  moreover have "set (map rev (rev qs)) \<subseteq> set whitespace"
    using qs(1) by auto
  ultimately show ?thesis using ls by metis
qed

lemma strip_trimmed:
  assumes "p \<in> set whitespace"
  shows "\<not> prefix p (strip s) \<and> \<not> suffix p (strip s)"
proof
  have ne: "p \<noteq> []" using assms by (rule whitespace_nonempty)
  have l: "\<not> prefix p (lstrip s)"
    unfolding lstrip_def using assms ne by (rule drop_leading_done)
  obtain rs where "lstrip s = strip s @ rs"
    using drop_leading_removed [of "map rev whitespace" "rev (lstrip s)"]
    by (metis rev_append rev_rev_ident rstrip_def strip_def)
  then have "prefix (strip s) (lstrip s)" by simp
  with l ne show "\<not> prefix p (strip s)"
    by (metis prefix_order.order_trans)
  have "\<not> prefix (rev p) (drop_leading (map rev whitespace) (rev (lstrip s)))"
    using assms ne by (intro drop_leading_done) auto
  then show "\<not> suffix p (strip s)"
    by (simp add: strip_def rstrip_def suffix_to_prefix)
qed

subsection \<open>\<^verbatim>\<open>save_search\<close>\<close>

text \<open>
  C8. Whatever the query, the result list and the content of the tables (an item
  with the same identifier may be there already: nothing is checked), a call of
  \<^verbatim>\<open>save_search\<close> whose \<^verbatim>\<open>put_item\<close> the store accepts returns the identifier made of
  the query, an underscore and the time \<open>t\<close> of the call printed down to the second:
  the year in four digits, month and day in two each, an underscore, hour, minute
  and second in two each. Another time gives the same stamp exactly when it agrees
  with \<open>t\<close> down to the second; the microsecond plays no part. The identifier is not
  empty, and the item stored under it holds the query, the results and the time of
  the write.
\<close>

theorem save_search_identifier:
  fixes query results w
  defines "t \<equiv> shd (clock w)"
  assumes "\<not> shd (store_faults w)" and "valid_datetime t"
  shows "let search_id = query @ ''_'' @ strftime_id t;
             w' = snd (save_search query results w)
         in fst (save_search query results w) = Inr search_id
          \<and> search_id \<noteq> []
          \<and> map of_char (strftime_id t) =
              map (\<lambda>n. 48 + n mod 10)
                [year t div 1000, year t div 100, year t div 10, year t,
                 month t div 10, month t, day t div 10, day t]
              @ [95 :: nat] @
              map (\<lambda>n. 48 + n mod 10)
                [hour t div 10, hour t, minute t div 10, minute t, second t div 10, second t]
          \<and> (\<forall>d. valid_datetime d \<longrightarrow>
                (strftime_id d = strftime_id t \<longleftrightarrow>
                   year d = year t \<and> month d = month t \<and> day d = day t \<and>
                   hour d = hour t \<and> minute d = minute t \<and> second d = second t))
          \<and> (\<forall>m. strftime_id (t\<lparr>microsecond := m\<rparr>) = strftime_id t)
          \<and> lookup_by s_search_id search_id (searches_table w') =
              Some \<lparr>s_search_id = search_id, s_query = Some query, s_results = Some results,
                    s_timestamp = Some (isoformat (shd (stl (clock w))))\<rparr>"
proof -
  have "fst (save_search query results w) = Inr (query @ ''_'' @ strftime_id t)"
    using assms(2) by (simp add: save_search_def now_def searches_put_item_def Let_def t_def)
  moreover have "lookup_by s_search_id (query @ ''_'' @ strftime_id t)
        (searches_table (snd (save_search query results w))) =
      Some \<lparr>s_search_id = query @ ''_'' @ strftime_id t, s_query = Some query,
            s_results = Some results,
            s_timestamp = Some (isoformat (shd (stl (clock w))))\<rparr>"
    using assms(2)
    by (simp add: save_search_def now_def searches_put_item_def Let_def t_def lookup_put_same)
  moreover note strftime_id_layout [OF assms(3)]
  moreover have "\<forall>d. valid_datetime d \<longrightarrow>
      (strftime_id d = strftime_id t \<longleftrightarrow>
         year d = year t \<and> month d = month t \<and> day d = day t \<and>
         hour d = hour t \<and> minute d = minute t \<and> second d = second t)"
    using strftime_id_same_second [OF _ assms(3)] by blast
  moreover have "\<forall>m. strftime_id (t\<lparr>microsecond := m\<rparr>) = strftime_id t"
    by (simp add: strftime_id_seconds)
  ultimately show ?thesis
    unfolding Let_def by (intro conjI) simp_all
qed

theorem save_search_identifier_witness:
  "\<not> shd (store_faults w0) \<and> valid_datetime (shd (clock w0))
    \<and> fst (save_search ''x'' [] w0) = Inr ''x_20240517_090307''
    \<and> ''x_20240517_090307'' \<noteq> []
    \<and> map of_char (strftime_id (shd (clock w0))) =
        [50, 48, 50, 52, 48, 53, 49, 55, 95, 48, 57, 48, 51, 48, 55 :: nat]"
proof -
  have h: "\<not> shd (store_faults w0)" by (simp add: w0_def)
  have c: "shd (clock w0) = d0" by (simp add: w0_def)
  have v: "valid_datetime (shd (clock w0))"
    unfolding c by (simp add: valid_datetime_def d0_def)
  from save_search_identifier [OF h v, of "''x''" "[]"]
  have "fst (save_search ''x'' [] w0) = Inr (''x'' @ ''_'' @ strftime_id (shd (clock w0)))"
    unfolding Let_def by (elim conjE)
  then show ?thesis
    using h v unfolding c strftime_id_d0 by simp
qed

subsection \<open>\<^verbatim>\<open>save_paper\<close> and \<^verbatim>\<open>get_paper\<close>\<close>

text \<open>
  C1. After \<^verbatim>\<open>save_paper(t1, u, s)\<close>, a call \<^verbatim>\<open>save_paper(t2, u)\<close> that the store
  accepts replaces the whole item: \<^verbatim>\<open>get_paper(u)\<close>, when the store answers it, returns
  the item with title \<open>t2\<close>, the time of the second write and the summary \<^verbatim>\<open>None\<close>, so
  nothing of \<open>s\<close> is left and the item counts as having no cached summary.
\<close>

theorem save_paper_full_replace:
  fixes t1 t2 u s w
  defines "w1 \<equiv> snd (save_paper t1 u (Str s) w)"
  defines "w2 \<equiv> snd (save_paper t2 u Null w1)"
  assumes "\<not> shd (store_faults w1)" and "\<not> shd (store_faults w2)"
  shows "fst (save_paper t2 u Null w1) = Inr ()
       \<and> fst (get_paper u w2) =
           Some \<lparr>p_url = u, p_title = Some t2, p_summary = Some Null,
                 p_timestamp = Some (isoformat (shd (clock w1)))\<rparr>
       \<and> cached_summary (fst (get_paper u w2)) = None"
proof -
  have put: "fst (save_paper t2 u Null w1) = Inr ()"
    using assms(3) by (simp add: save_paper_eq)
  have tbl: "papers_table w2 =
      put_by p_url \<lparr>p_url = u, p_title = Some t2, p_summary = Some Null,
                     p_timestamp = Some (isoformat (shd (clock w1)))\<rparr> (papers_table w1)"
    using assms(3) unfolding w2_def by (simp add: save_paper_eq)
  have "fst (get_paper u w2) = lookup_by p_url u (papers_table w2)"
    using assms(4) by (simp add: get_paper_eq)
  then have "fst (get_paper u w2) =
      Some \<lparr>p_url = u, p_title = Some t2, p_summary = Some Null,
            p_timestamp = Some (isoformat (shd (clock w1)))\<rparr>"
    by (simp add: tbl lookup_put_same)
  then show ?thesis using put by simp
qed

theorem save_paper_full_replace_witness:
  "\<not> shd (store_faults (snd (save_paper ''Old'' ''u'' (Str ''S'') w0)))
   \<and> \<not> shd (store_faults
           (snd (save_paper ''New'' ''u'' Null (snd (save_paper ''Old'' ''u'' (Str ''S'') w0)))))
   \<and> fst (get_paper ''u'' (snd (save_paper ''Old'' ''u'' (Str ''S'') w0))) =
       Some \<lparr>p_url = ''u'', p_title = Some ''Old'', p_summary = Some (Str ''S''),
             p_timestamp = Some ''2024-05-17T09:03:07.000123''\<rparr>
   \<and> fst (get_paper ''u''
           (snd (save_paper ''New'' ''u'' Null (snd (save_paper ''Old'' ''u'' (Str ''S'') w0))))) =
       Some \<lparr>p_url = ''u'', p_title = Some ''New'', p_summary = Some Null,
             p_timestamp = Some ''2024-05-17T09:03:07.000123''\<rparr>"
proof -
  have a: "\<not> shd (store_faults (snd (save_paper ''Old'' ''u'' (Str ''S'') w0)))"
    by (simp add: w0_def save_paper_eq)
  have b: "\<not> shd (store_faults
      (snd (save_paper ''New'' ''u'' Null (snd (save_paper ''Old'' ''u'' (Str ''S'') w0)))))"
    by (simp add: w0_def save_paper_eq)
  have c: "shd (clock (snd (save_paper ''Old'' ''u'' (Str ''S'') w0))) = d0"
    by (simp add: w0_def save_paper_eq)
  have d: "fst (get_paper ''u'' (snd (save_paper ''Old'' ''u'' (Str ''S'') w0))) =
       Some \<lparr>p_url = ''u'', p_title = Some ''Old'', p_summary = Some (Str ''S''),
             p_timestamp = Some ''2024-05-17T09:03:07.000123''\<rparr>"
    by (simp add: w0_def save_paper_eq get_paper_eq lookup_by_def isoformat_d0)
  show ?thesis
    using save_paper_full_replace [OF a b] a b c d by (simp add: isoformat_d0)
qed

subsection \<open>\<^verbatim>\<open>summarize_paper\<close>: the cached summary\<close>

lemma summarize_paper_hit:
  assumes "lookup_by p_url u (papers_table w) = Some p" and "p_summary p = Some (Str s)"
    and "s \<noteq> []" and "\<not> shd (store_faults w)"
  shows "fst (summarize_paper u w) = Inr s \<and> untouched w (snd (summarize_paper u w))"
  using assms
  by (simp add: summarize_paper_def get_paper_eq untouched_def)

lemma attach_summary_stores:
  assumes "fst (attach_summary c u s w) = Inr ()"
    and "c = None \<or> c = lookup_by p_url u (papers_table w)"
  shows "\<exists>p. lookup_by p_url u (papers_table (snd (attach_summary c u s w))) = Some p
           \<and> p_summary p = Some (Str s)"
proof (cases c)
  case None
  with assms(1) show ?thesis
    by (auto simp: attach_summary_def save_paper_eq lookup_put_same split: if_splits)
next
  case (Some p)
  with assms(2) have l: "lookup_by p_url u (papers_table w) = Some p" by simp
  then have "p_url p = u" by (simp add: lookup_by_in_set)
  with Some l assms(1) show ?thesis
    by (auto simp: attach_summary_def papers_update_item_def set_summary_def lookup_put_same
        split: if_splits)
qed

text \<open>A call that returns a non-empty summary leaves it stored under the url.\<close>

lemma summarize_paper_populates:
  assumes "fst (summarize_paper u w) = Inr s" and "s \<noteq> []"
  shows "\<exists>p. lookup_by p_url u (papers_table (snd (summarize_paper u w))) = Some p
           \<and> p_summary p = Some (Str s)"
proof (cases "cached_summary (fst (get_paper u w))")
  case (Some s')
  with assms(1) have s': "s' = s"
    and same: "papers_table (snd (summarize_paper u w)) = papers_table w"
    by (auto simp: summarize_paper_def get_paper_eq split: prod.splits if_splits)
  from Some obtain p where p: "fst (get_paper u w) = Some p" "p_summary p = Some (Str s')"
    by (auto simp: cached_summary_Some)
  from p(1) have "lookup_by p_url u (papers_table w) = Some p"
    by (auto simp: get_paper_eq split: if_splits)
  with p(2) s' same show ?thesis by simp
next
  case None
  define c where "c = fst (get_paper u w)"
  define w2 where "w2 = snd (tavily_qna_search
      (''Summarize the key contributions of this ArXiv paper: '' @ u) (snd (get_paper u w)))"
  have tbl: "papers_table w2 = papers_table w"
    by (simp add: w2_def tavily_qna_search_def get_paper_eq)
  have c: "c = None \<or> c = lookup_by p_url u (papers_table w2)"
    by (simp add: c_def get_paper_eq tbl)
  from None assms(1) have "fst (attach_summary c u s w2) = Inr ()"
    and "snd (summarize_paper u w) = snd (attach_summary c u s w2)"
    by (auto simp: summarize_paper_def Let_def c_def w2_def tavily_qna_search_def
        split: prod.splits sum.splits)
  with attach_summary_stores [of c u s w2] c show ?thesis by simp
qed

text \<open>
  C2. When the item stored under \<open>u\<close> has a non-empty summary \<open>s\<close> and the store answers
  the lookup, \<^verbatim>\<open>summarize_paper(u)\<close> returns \<open>s\<close>, the provider is not called and nothing
  is written. In particular, after a call that returned a non-empty summary, a second
  call returns the same summary without a call to the provider or a write.
\<close>

theorem summarize_paper_cache_hit:
  fixes u s w
  defines "w1 \<equiv> snd (summarize_paper u w)"
  shows "(\<forall>p. lookup_by p_url u (papers_table w) = Some p \<and> p_summary p = Some (Str s)
              \<and> s \<noteq> [] \<and> \<not> shd (store_faults w)
            \<longrightarrow> fst (summarize_paper u w) = Inr s \<and> untouched w w1)
       \<and> (fst (summarize_paper u w) = Inr s \<and> s \<noteq> [] \<and> \<not> shd (store_faults w1)
            \<longrightarrow> fst (summarize_paper u w1) = Inr s
              \<and> untouched w1 (snd (summarize_paper u w1)))"
proof (intro conjI allI impI)
  fix p
  assume "lookup_by p_url u (papers_table w) = Some p \<and> p_summary p = Some (Str s)
              \<and> s \<noteq> [] \<and> \<not> shd (store_faults w)"
  then show "fst (summarize_paper u w) = Inr s" "untouched w w1"
    using summarize_paper_hit [of u w p s] by (simp_all add: w1_def)
next
  assume a: "fst (summarize_paper u w) = Inr s \<and> s \<noteq> [] \<and> \<not> shd (store_faults w1)"
  then obtain p where "lookup_by p_url u (papers_table w1) = Some p"
      "p_summary p = Some (Str s)"
    using summarize_paper_populates [of u w s] by (auto simp: w1_def)
  with a show "fst (summarize_paper u w1) = Inr s"
      "untouched w1 (snd (summarize_paper u w1))"
    using summarize_paper_hit [of u w1 p s] by simp_all
qed

lemma summarize_paper_b:
  "summarize_paper ''arxiv.org/abs/1512.03385'' w_papers =
     (Inr ''Residual connections.'',
      w_papers\<lparr>papers_table :=
                 [paper_a, paper_b\<lparr>p_summary := Some (Str ''Residual connections.'')\<rparr>],
               trace :=
                 [TavilyQna ''Summarize the key contributions of this ArXiv paper: arxiv.org/abs/1512.03385'',
                  UpdateSummary ''arxiv.org/abs/1512.03385'' ''Residual connections.'']\<rparr>)"
  by (simp add: summarize_paper_def get_paper_eq w_papers_def w0_def lookup_by_def paper_a_def
      paper_b_def tavily_qna_search_def attach_summary_def papers_update_item_def set_summary_def)

theorem summarize_paper_cache_hit_witness:
  "fst (summarize_paper ''arxiv.org/abs/1706.03762'' w_papers) = Inr ''Introduces the Transformer.''
   \<and> trace (snd (summarize_paper ''arxiv.org/abs/1706.03762'' w_papers)) = trace w_papers
   \<and> fst (summarize_paper ''arxiv.org/abs/1512.03385'' w_papers) = Inr ''Residual connections.''
   \<and> fst (summarize_paper ''arxiv.org/abs/1512.03385''
            (snd (summarize_paper ''arxiv.org/abs/1512.03385'' w_papers))) =
       Inr ''Residual connections.''
   \<and> trace (snd (summarize_paper ''arxiv.org/abs/1512.03385''
            (snd (summarize_paper ''arxiv.org/abs/1512.03385'' w_papers)))) =
       trace (snd (summarize_paper ''arxiv.org/abs/1512.03385'' w_papers))"
proof -
  have 1: "lookup_by p_url ''arxiv.org/abs/1706.03762'' (papers_table w_papers) = Some paper_a
      \<and> p_summary paper_a = Some (Str ''Introduces the Transformer.'')
      \<and> ''Introduces the Transformer.'' \<noteq> [] \<and> \<not> shd (store_faults w_papers)"
    by (simp add: w_papers_def w0_def lookup_by_def paper_a_def)
  have f: "fst (summarize_paper ''arxiv.org/abs/1512.03385'' w_papers) =
      Inr ''Residual connections.''"
    by (simp add: summarize_paper_b)
  have "\<not> shd (store_faults (snd (summarize_paper ''arxiv.org/abs/1512.03385'' w_papers)))"
    by (simp add: summarize_paper_b) (simp add: w_papers_def w0_def)
  with f have 2: "fst (summarize_paper ''arxiv.org/abs/1512.03385'' w_papers) =
        Inr ''Residual connections.''
      \<and> ''Residual connections.'' \<noteq> []
      \<and> \<not> shd (store_faults (snd (summarize_paper ''arxiv.org/abs/1512.03385'' w_papers)))"
    by simp
  note a = summarize_paper_cache_hit [THEN conjunct1, rule_format, OF 1]
  note b = summarize_paper_cache_hit [THEN conjunct2, rule_format, OF 2]
  from a b f show ?thesis
    unfolding untouched_def by (intro conjI) (elim conjE, assumption)+
qed

subsection \<open>\<^verbatim>\<open>summarize_paper\<close>: attaching the summary\<close>

text \<open>Without a cached summary, and with the store answering the lookup and accepting
  the write, \<^verbatim>\<open>summarize_paper\<close> returns what the provider answered and attaches it
  to what the lookup found.\<close>

lemma summarize_paper_attaches:
  assumes "\<not> shd (store_faults w)" and "\<not> shd (stl (store_faults w))"
    and "cached_summary (lookup_by p_url u (papers_table w)) = None"
    and "shd (qna_replies w) = Inr s"
  shows "fst (summarize_paper u w) = Inr s
       \<and> papers_table (snd (summarize_paper u w)) =
           papers_table (snd (attach_summary (lookup_by p_url u (papers_table w)) u s w))
       \<and> trace (snd (summarize_paper u w)) =
           trace w @ TavilyQna (''Summarize the key contributions of this ArXiv paper: '' @ u)
             # (case lookup_by p_url u (papers_table w) of
                  Some p \<Rightarrow> [UpdateSummary u s]
                | None \<Rightarrow> [PutPaper \<lparr>p_url = u, p_title = Some ''Unknown Title'',
                                      p_summary = Some (Str s),
                                      p_timestamp = Some (isoformat (shd (clock w)))\<rparr>])"
  using assms
  by (cases "lookup_by p_url u (papers_table w)")
    (simp_all add: summarize_paper_def get_paper_eq tavily_qna_search_def attach_summary_def
      papers_update_item_def save_paper_eq Let_def)

text \<open>What the attaching statement does to the table when it is given what the table
  holds under the url.\<close>

lemma attach_summary_effect:
  fixes u s w
  defines "w' \<equiv> snd (attach_summary (lookup_by p_url u (papers_table w)) u s w)"
  assumes "\<not> shd (store_faults w)"
  shows "fst (attach_summary (lookup_by p_url u (papers_table w)) u s w) = Inr ()
       \<and> lookup_by p_url u (papers_table w') =
           (case lookup_by p_url u (papers_table w) of
              Some p \<Rightarrow> Some (p\<lparr>p_summary := Some (Str s)\<rparr>)
            | None \<Rightarrow> Some \<lparr>p_url = u, p_title = Some ''Unknown Title'',
                            p_summary = Some (Str s),
                            p_timestamp = Some (isoformat (shd (clock w)))\<rparr>)
       \<and> (\<forall>k. k \<noteq> u \<longrightarrow> lookup_by p_url k (papers_table w') = lookup_by p_url k (papers_table w))"
proof (cases "lookup_by p_url u (papers_table w)")
  case None
  with assms(2) show ?thesis
    by (simp add: w'_def attach_summary_def save_paper_eq lookup_put_same lookup_put_other)
next
  case (Some p)
  then have "p_url p = u" by (simp add: lookup_by_in_set)
  with Some assms(2) show ?thesis
    by (simp add: w'_def attach_summary_def papers_update_item_def set_summary_def
        lookup_put_same lookup_put_other)
qed

text \<open>
  When the lookup itself raises, \<^verbatim>\<open>get_paper\<close> reports no item, and the summary is
  attached by \<^verbatim>\<open>save_paper\<close>: whatever was stored under the url is replaced.
\<close>

lemma summarize_paper_lookup_failed:
  assumes "shd (store_faults w)" and "\<not> shd (stl (store_faults w))"
    and "shd (qna_replies w) = Inr s"
  shows "fst (summarize_paper u w) = Inr s
       \<and> lookup_by p_url u (papers_table (snd (summarize_paper u w))) =
           Some \<lparr>p_url = u, p_title = Some ''Unknown Title'', p_summary = Some (Str s),
                 p_timestamp = Some (isoformat (shd (clock w)))\<rparr>"
  using assms
  by (simp add: summarize_paper_def get_paper_eq tavily_qna_search_def attach_summary_def
      save_paper_eq Let_def lookup_put_same)

text \<open>
  C3. Let the store answer the lookup of \<^verbatim>\<open>summarize_paper(u)\<close> and accept its write,
  let there be no cached summary under \<open>u\<close>, and let the provider answer \<open>s\<close>. Then
  \<^verbatim>\<open>summarize_paper\<close> returns \<open>s\<close> and attaches it. If there is an item under \<open>u\<close>,
  afterwards it is the same item with \<open>summary\<close> set to \<open>s\<close>: title and every other
  attribute are as they were, and the one write is the field update. If there is
  none, afterwards there is one with the title \<^verbatim>\<open>Unknown Title\<close> and the summary \<open>s\<close>.
  Items under other urls are not touched.
\<close>

theorem summarize_paper_attaches_summary:
  fixes u s w
  defines "found \<equiv> lookup_by p_url u (papers_table w)"
  defines "w' \<equiv> snd (summarize_paper u w)"
  assumes "\<not> shd (store_faults w)" and "\<not> shd (stl (store_faults w))"
    and "cached_summary found = None"
    and "shd (qna_replies w) = Inr s"
  shows "fst (summarize_paper u w) = Inr s
       \<and> lookup_by p_url u (papers_table w') =
           (case found of
              Some p \<Rightarrow> Some (p\<lparr>p_summary := Some (Str s)\<rparr>)
            | None \<Rightarrow> Some \<lparr>p_url = u, p_title = Some ''Unknown Title'',
                            p_summary = Some (Str s),
                            p_timestamp = Some (isoformat (shd (clock w)))\<rparr>)
       \<and> (\<forall>k. k \<noteq> u \<longrightarrow> lookup_by p_url k (papers_table w') = lookup_by p_url k (papers_table w))
       \<and> trace w' =
           trace w @ TavilyQna (''Summarize the key contributions of this ArXiv paper: '' @ u)
             # (case found of
                  Some p \<Rightarrow> [UpdateSummary u s]
                | None \<Rightarrow> [PutPaper \<lparr>p_url = u, p_title = Some ''Unknown Title'',
                                      p_summary = Some (Str s),
                                      p_timestamp = Some (isoformat (shd (clock w)))\<rparr>])"
proof -
  note a = summarize_paper_attaches [OF assms(3,4) assms(5) [unfolded found_def] assms(6)]
  note e = attach_summary_effect [OF assms(3), of u s]
  have r: "fst (summarize_paper u w) = Inr s"
    by (rule a [THEN conjunct1])
  have t: "papers_table w' =
      papers_table (snd (attach_summary (lookup_by p_url u (papers_table w)) u s w))"
    unfolding w'_def by (rule a [THEN conjunct2, THEN conjunct1])
  have tr: "trace w' =
      trace w @ TavilyQna (''Summarize the key contributions of this ArXiv paper: '' @ u)
        # (case found of
             Some p \<Rightarrow> [UpdateSummary u s]
           | None \<Rightarrow> [PutPaper \<lparr>p_url = u, p_title = Some ''Unknown Title'',
                                 p_summary = Some (Str s),
                                 p_timestamp = Some (isoformat (shd (clock w)))\<rparr>])"
    unfolding w'_def found_def by (rule a [THEN conjunct2, THEN conjunct2])
  have l1: "lookup_by p_url u (papers_table w') =
      (case found of
         Some p \<Rightarrow> Some (p\<lparr>p_summary := Some (Str s)\<rparr>)
       | None \<Rightarrow> Some \<lparr>p_url = u, p_title = Some ''Unknown Title'',
                       p_summary = Some (Str s),
                       p_timestamp = Some (isoformat (shd (clock w)))\<rparr>)"
    unfolding t found_def by (rule e [THEN conjunct2, THEN conjunct1])
  have l2: "\<forall>k. k \<noteq> u \<longrightarrow>
      lookup_by p_url k (papers_table w') = lookup_by p_url k (papers_table w)"
    unfolding t by (rule e [THEN conjunct2, THEN conjunct2])
  from r l1 l2 tr show ?thesis by (intro conjI)
qed

theorem summarize_paper_attaches_summary_witness:
  "\<not> shd (store_faults w_papers) \<and> \<not> shd (stl (store_faults w_papers))
   \<and> shd (qna_replies w_papers) = Inr ''Residual connections.''
   \<and> lookup_by p_url ''arxiv.org/abs/1512.03385'' (papers_table w_papers) =
       Some \<lparr>p_url = ''arxiv.org/abs/1512.03385'', p_title = Some ''Deep Residual Learning'',
             p_summary = Some Null, p_timestamp = Some ''2024-02-01T00:00:00''\<rparr>
   \<and> lookup_by p_url ''arxiv.org/abs/1512.03385''
       (papers_table (snd (summarize_paper ''arxiv.org/abs/1512.03385'' w_papers))) =
       Some \<lparr>p_url = ''arxiv.org/abs/1512.03385'', p_title = Some ''Deep Residual Learning'',
             p_summary = Some (Str ''Residual connections.''),
             p_timestamp = Some ''2024-02-01T00:00:00''\<rparr>
   \<and> lookup_by p_url ''arxiv.org/abs/1'' (papers_table w_papers) = None
   \<and> lookup_by p_url ''arxiv.org/abs/1''
       (papers_table (snd (summarize_paper ''arxiv.org/abs/1'' w_papers))) =
       Some \<lparr>p_url = ''arxiv.org/abs/1'', p_title = Some ''Unknown Title'',
             p_summary = Some (Str ''Residual connections.''),
             p_timestamp = Some ''2024-05-17T09:03:07.000123''\<rparr>"
proof -
  have h: "\<not> shd (store_faults w_papers)" "\<not> shd (stl (store_faults w_papers))"
    by (simp_all add: w_papers_def w0_def)
  have q: "shd (qna_replies w_papers) = Inr ''Residual connections.''"
    by (simp add: w_papers_def)
  have b: "lookup_by p_url ''arxiv.org/abs/1512.03385'' (papers_table w_papers) = Some paper_b"
    by (simp add: w_papers_def w0_def lookup_by_def paper_a_def paper_b_def)
  have n: "lookup_by p_url ''arxiv.org/abs/1'' (papers_table w_papers) = None"
    by (simp add: w_papers_def w0_def lookup_by_def paper_a_def paper_b_def)
  have cb: "cached_summary (lookup_by p_url ''arxiv.org/abs/1512.03385'' (papers_table w_papers)) = None"
    unfolding b by (simp add: paper_b_def)
  have cn: "cached_summary (lookup_by p_url ''arxiv.org/abs/1'' (papers_table w_papers)) = None"
    unfolding n by simp
  have c: "isoformat (shd (clock w_papers)) = ''2024-05-17T09:03:07.000123''"
    by (simp add: w_papers_def w0_def isoformat_d0)
  note 1 = summarize_paper_attaches_summary [OF h cb q, THEN conjunct2, THEN conjunct1]
  note 2 = summarize_paper_attaches_summary [OF h cn q, THEN conjunct2, THEN conjunct1]
  show ?thesis
    unfolding 1 2 using h q unfolding b n c by (simp add: paper_b_def)
qed

subsection \<open>Scans when the store fails\<close>

text \<open>
  C7. When the scan raises, \<^verbatim>\<open>get_search_history\<close> and \<^verbatim>\<open>get_saved_papers\<close> both
  return the empty list, for every limit, and neither table is changed.
\<close>

theorem scans_swallow_store_error:
  assumes "shd (store_faults w)"
  shows "fst (get_search_history limit w) = [] \<and> untouched w (snd (get_search_history limit w))
       \<and> fst (get_saved_papers limit' w) = [] \<and> untouched w (snd (get_saved_papers limit' w))"
  using assms
  by (simp add: get_search_history_def get_search_history_try_def searches_scan_def
      get_saved_papers_def get_saved_papers_try_def papers_scan_def untouched_def)

theorem scans_swallow_store_error_witness:
  "shd (store_faults (w_papers\<lparr>store_faults := sconst True\<rparr>))
   \<and> fst (get_search_history 10 (w_papers\<lparr>store_faults := sconst True\<rparr>)) = []
   \<and> fst (get_saved_papers 20 (w_papers\<lparr>store_faults := sconst True\<rparr>)) = []
   \<and> papers_table (snd (get_saved_papers 20 (w_papers\<lparr>store_faults := sconst True\<rparr>))) =
       [paper_a, paper_b]
   \<and> fst (get_saved_papers 20 w_papers) \<noteq> []"
proof -
  have h: "shd (store_faults (w_papers\<lparr>store_faults := sconst True\<rparr>))" by simp
  have p: "fst (get_saved_papers 20 w_papers) \<noteq> []"
    by (simp add: get_saved_papers_def get_saved_papers_try_def papers_scan_def w_papers_def
        w0_def paper_view_of_def paper_a_def paper_b_def)
  from scans_swallow_store_error [OF h, of 10 20] p show ?thesis
    by (simp add: untouched_def) (simp add: w_papers_def)
qed

subsection \<open>The timestamp of a paper\<close>

text \<open>
  The summary update of \<^verbatim>\<open>summarize_paper\<close> writes to an item and leaves its timestamp
  alone: here the item of February keeps its timestamp although the write happens in
  May.
\<close>

theorem summarize_paper_timestamp_counterexample:
  "fst (summarize_paper ''arxiv.org/abs/1512.03385'' w_papers) = Inr ''Residual connections.''
   \<and> trace (snd (summarize_paper ''arxiv.org/abs/1512.03385'' w_papers)) =
       [TavilyQna ''Summarize the key contributions of this ArXiv paper: arxiv.org/abs/1512.03385'',
        UpdateSummary ''arxiv.org/abs/1512.03385'' ''Residual connections.'']
   \<and> lookup_by p_url ''arxiv.org/abs/1512.03385''
        (papers_table (snd (summarize_paper ''arxiv.org/abs/1512.03385'' w_papers))) =
       Some \<lparr>p_url = ''arxiv.org/abs/1512.03385'', p_title = Some ''Deep Residual Learning'',
             p_summary = Some (Str ''Residual connections.''),
             p_timestamp = Some ''2024-02-01T00:00:00''\<rparr>
   \<and> isoformat (shd (clock w_papers)) = ''2024-05-17T09:03:07.000123''
   \<and> ''2024-02-01T00:00:00'' \<noteq> isoformat (shd (clock w_papers))"
proof -
  have c: "isoformat (shd (clock w_papers)) = ''2024-05-17T09:03:07.000123''"
    by (simp add: w_papers_def w0_def isoformat_d0)
  show ?thesis
    unfolding c by (simp add: summarize_paper_b lookup_by_def paper_a_def paper_b_def)
qed

text \<open>
  C9, as the code has it. A \<^verbatim>\<open>save_paper\<close> that the store accepts leaves the item with
  the time of that write as its timestamp; the summary update of \<^verbatim>\<open>summarize_paper\<close>
  leaves the timestamp of the item as it was. So the timestamp of a paper is the time
  of the last \<^verbatim>\<open>save_paper\<close> for its url.
\<close>

theorem paper_timestamp_is_last_put:
  assumes "\<not> shd (store_faults w)"
  shows "map_option p_timestamp
           (lookup_by p_url u (papers_table (snd (save_paper t u s w)))) =
           Some (Some (isoformat (shd (clock w))))
       \<and> (\<forall>p. lookup_by p_url u (papers_table w) = Some p \<longrightarrow>
            map_option p_timestamp
              (lookup_by p_url u (papers_table (snd (papers_update_item u s' w)))) =
              Some (p_timestamp p))"
proof (intro conjI allI impI)
  show "map_option p_timestamp
           (lookup_by p_url u (papers_table (snd (save_paper t u s w)))) =
           Some (Some (isoformat (shd (clock w))))"
    using assms by (simp add: save_paper_eq lookup_put_same)
next
  fix p assume l: "lookup_by p_url u (papers_table w) = Some p"
  then have "p_url p = u" by (simp add: lookup_by_in_set)
  with l assms show "map_option p_timestamp
              (lookup_by p_url u (papers_table (snd (papers_update_item u s' w)))) =
              Some (p_timestamp p)"
    by (simp add: papers_update_item_def set_summary_def lookup_put_same)
qed

theorem paper_timestamp_is_last_put_witness:
  "\<not> shd (store_faults w_papers)
   \<and> map_option p_timestamp
       (lookup_by p_url ''arxiv.org/abs/1512.03385''
         (papers_table (snd (save_paper ''Deep Residual Learning'' ''arxiv.org/abs/1512.03385'' Null w_papers)))) =
       Some (Some ''2024-05-17T09:03:07.000123'')
   \<and> map_option p_timestamp
       (lookup_by p_url ''arxiv.org/abs/1512.03385''
         (papers_table (snd (papers_update_item ''arxiv.org/abs/1512.03385'' ''Residual connections.'' w_papers)))) =
       Some (Some ''2024-02-01T00:00:00'')"
proof -
  have h: "\<not> shd (store_faults w_papers)" by (simp add: w_papers_def w0_def)
  have b: "lookup_by p_url ''arxiv.org/abs/1512.03385'' (papers_table w_papers) = Some paper_b"
    by (simp add: w_papers_def w0_def lookup_by_def paper_a_def paper_b_def)
  have c: "isoformat (shd (clock w_papers)) = ''2024-05-17T09:03:07.000123''"
    by (simp add: w_papers_def w0_def isoformat_d0)
  have t: "p_timestamp paper_b = Some ''2024-02-01T00:00:00''" by (simp add: paper_b_def)
  note a = paper_timestamp_is_last_put [OF h, THEN conjunct1]
  note u = paper_timestamp_is_last_put [OF h, THEN conjunct2, rule_format, OF b]
  show ?thesis unfolding a u c t using h by simp
qed

subsection \<open>\<^verbatim>\<open>get_saved_papers\<close>\<close>

lemma map_err_length: "map_err f xs = Inr ys \<Longrightarrow> length ys = length xs"
  by (induction xs arbitrary: ys) (auto split: sum.splits)

lemma map_err_ok: "(\<And>x. x \<in> set xs \<Longrightarrow> f x = Inr (g x)) \<Longrightarrow> map_err f xs = Inr (map g xs)"
  by (induction xs) auto

lemma truthy_iff: "truthy a \<longleftrightarrow> (\<exists>s. a = Some (Str s) \<and> s \<noteq> [])"
  by (cases a rule: truthy.cases) auto

text \<open>
  C6. \<^verbatim>\<open>get_saved_papers(limit)\<close> never returns more than \<open>limit\<close> entries. When the
  store answers the scan and every item of the page has its \<open>title\<close> and \<open>timestamp\<close>,
  the result is the page itself, the first \<open>limit\<close> items in the order of the scan,
  each projected to title, url, \<open>has_summary\<close> and timestamp, where \<open>has_summary\<close> holds
  exactly when the item has a summary that is a non-empty string. Nothing is written.
\<close>

theorem get_saved_papers_page:
  fixes limit w
  defines "page \<equiv> take (nat limit) (papers_table w)"
  shows "length (fst (get_saved_papers limit w)) \<le> nat limit
       \<and> (\<not> shd (store_faults w) \<and> (\<forall>x \<in> set page. p_title x \<noteq> None \<and> p_timestamp x \<noteq> None)
           \<longrightarrow> fst (get_saved_papers limit w) =
                 map (\<lambda>x. \<lparr>pv_title = the (p_title x), pv_url = p_url x,
                           pv_has_summary = (\<exists>s. p_summary x = Some (Str s) \<and> s \<noteq> []),
                           pv_timestamp = the (p_timestamp x)\<rparr>) page
             \<and> untouched w (snd (get_saved_papers limit w)))"
proof (intro conjI impI)
  show "length (fst (get_saved_papers limit w)) \<le> nat limit"
    by (auto simp: get_saved_papers_def get_saved_papers_try_def papers_scan_def
        split: sum.splits dest!: map_err_length)
next
  assume a: "\<not> shd (store_faults w) \<and> (\<forall>x \<in> set page. p_title x \<noteq> None \<and> p_timestamp x \<noteq> None)"
  let ?view = "\<lambda>x. \<lparr>pv_title = the (p_title x), pv_url = p_url x,
                           pv_has_summary = (\<exists>s. p_summary x = Some (Str s) \<and> s \<noteq> []),
                           pv_timestamp = the (p_timestamp x)\<rparr>"
  have "map_err paper_view_of page = Inr (map ?view page)"
  proof (rule map_err_ok)
    fix x assume "x \<in> set page"
    with a show "paper_view_of x = Inr (?view x)"
      by (auto simp: paper_view_of_def truthy_iff)
  qed
  with a show "fst (get_saved_papers limit w) = map ?view page"
    by (simp add: get_saved_papers_def get_saved_papers_try_def papers_scan_def page_def)
  from a show "untouched w (snd (get_saved_papers limit w))"
    by (simp add: get_saved_papers_def get_saved_papers_try_def papers_scan_def untouched_def
        split: sum.splits)
qed

theorem get_saved_papers_page_witness:
  "fst (get_saved_papers 1 w_papers) =
     [\<lparr>pv_title = ''Attention Is All You Need'', pv_url = ''arxiv.org/abs/1706.03762'',
       pv_has_summary = True, pv_timestamp = ''2024-01-01T00:00:00''\<rparr>]
   \<and> fst (get_saved_papers 20 w_papers) =
     [\<lparr>pv_title = ''Attention Is All You Need'', pv_url = ''arxiv.org/abs/1706.03762'',
       pv_has_summary = True, pv_timestamp = ''2024-01-01T00:00:00''\<rparr>,
      \<lparr>pv_title = ''Deep Residual Learning'', pv_url = ''arxiv.org/abs/1512.03385'',
       pv_has_summary = False, pv_timestamp = ''2024-02-01T00:00:00''\<rparr>]"
proof -
  have 1: "\<not> shd (store_faults w_papers) \<and>
      (\<forall>x \<in> set (take (nat 1) (papers_table w_papers)). p_title x \<noteq> None \<and> p_timestamp x \<noteq> None)"
    by (simp add: w_papers_def w0_def paper_a_def)
  have 2: "\<not> shd (store_faults w_papers) \<and>
      (\<forall>x \<in> set (take (nat 20) (papers_table w_papers)). p_title x \<noteq> None \<and> p_timestamp x \<noteq> None)"
    by (simp add: w_papers_def w0_def paper_a_def paper_b_def)
  have t: "papers_table w_papers = [paper_a, paper_b]" by (simp add: w_papers_def)
  note a = get_saved_papers_page [THEN conjunct2, rule_format, OF 1, THEN conjunct1]
  note b = get_saved_papers_page [THEN conjunct2, rule_format, OF 2, THEN conjunct1]
  show ?thesis unfolding a b t by (simp add: paper_a_def paper_b_def)
qed

subsection \<open>\<^verbatim>\<open>get_search_history\<close>\<close>

lemma insort_key_map:
  "insort_key f (g x) (map g xs) = map g (insort_key (\<lambda>x. f (g x)) x xs)"
  by (induction xs) auto

lemma sort_key_map: "sort_key f (map g xs) = map g (sort_key (\<lambda>x. f (g x)) xs)"
  by (induction xs) (auto simp: insort_key_map)

lemma sorted_reverse_zip:
  "map snd (sorted_reverse (zip (map k xs) xs)) = rev (sort_key k (rev xs))"
proof -
  have z: "zip (map k xs) xs = map (\<lambda>x. (k x, x)) xs"
    by (induction xs) auto
  have "sort_key fst (map (\<lambda>x. (k x, x)) (rev xs)) = map (\<lambda>x. (k x, x)) (sort_key k (rev xs))"
    by (simp add: sort_key_map)
  then show ?thesis
    by (simp add: sorted_reverse_def z rev_map comp_def)
qed

lemma sorted_by_timestamp_ok:
  assumes "\<And>x. x \<in> set items \<Longrightarrow> s_timestamp x \<noteq> None"
  shows "sorted_by_timestamp items = Inr (rev (sort_key (\<lambda>x. the (s_timestamp x)) (rev items)))"
proof -
  have "map_err timestamp_key items = Inr (map (\<lambda>x. the (s_timestamp x)) items)"
    by (rule map_err_ok) (use assms in \<open>auto simp: timestamp_key_def split: option.splits\<close>)
  then show ?thesis
    by (simp add: sorted_by_timestamp_def sorted_reverse_zip)
qed

lemma sorted_desc: "sorted_wrt (\<lambda>a b. k b \<le> k a) (rev (sort_key k xs))"
proof -
  have "sorted (map k (sort_key k xs))" by simp
  then have "sorted_wrt (\<lambda>a b. k a \<le> k b) (sort_key k xs)"
    by (simp add: sorted_map)
  then show ?thesis by (simp add: sorted_wrt_rev)
qed

text \<open>
  C5. When the store answers the scan and every item of the page (the first \<open>limit\<close>
  items the scan meets) has its \<open>query\<close> and \<open>timestamp\<close>, \<^verbatim>\<open>get_search_history(limit)\<close>
  returns the projections of exactly the items of the page, ordered by timestamp
  from the latest to the earliest (items with equal timestamps in the order of the
  scan), \<open>result_count\<close> being the length of the stored result list, 0 without one.
  There are at most \<open>limit\<close> of them and nothing is written. The page is cut before
  it is sorted: in some world the timestamps returned are not the \<open>limit\<close> latest of
  the table.
\<close>

theorem get_search_history_sorted_page:
  fixes limit w
  defines "page \<equiv> take (nat limit) (searches_table w)"
  defines "view \<equiv> \<lambda>x. \<lparr>sv_search_id = s_search_id x, sv_query = the (s_query x),
                        sv_timestamp = the (s_timestamp x),
                        sv_result_count = length (case s_results x of None \<Rightarrow> [] | Some rs \<Rightarrow> rs)\<rparr>"
  defines "result \<equiv> fst (get_search_history limit w)"
  shows "(\<not> shd (store_faults w) \<and> (\<forall>x \<in> set page. s_query x \<noteq> None \<and> s_timestamp x \<noteq> None)
           \<longrightarrow> result = map view (rev (sort_key (\<lambda>x. the (s_timestamp x)) (rev page)))
             \<and> mset result = image_mset view (mset page)
             \<and> sorted_wrt (\<lambda>a b. sv_timestamp b \<le> sv_timestamp a) result
             \<and> length result \<le> nat limit
             \<and> untouched w (snd (get_search_history limit w)))
       \<and> (\<exists>w n. \<not> shd (store_faults w)
             \<and> (\<forall>x \<in> set (searches_table w). s_query x \<noteq> None \<and> s_timestamp x \<noteq> None)
             \<and> map sv_timestamp (fst (get_search_history n w)) \<noteq>
                 take (nat n) (rev (sort (map (\<lambda>x. the (s_timestamp x)) (searches_table w)))))"
proof (intro conjI impI)
  assume a: "\<not> shd (store_faults w) \<and> (\<forall>x \<in> set page. s_query x \<noteq> None \<and> s_timestamp x \<noteq> None)"
  let ?sorted = "rev (sort_key (\<lambda>x. the (s_timestamp x)) (rev page))"
  have s: "sorted_by_timestamp page = Inr ?sorted"
    using a by (intro sorted_by_timestamp_ok) auto
  have "map_err search_view_of ?sorted = Inr (map view ?sorted)"
  proof (rule map_err_ok)
    fix x assume "x \<in> set ?sorted"
    then have "x \<in> set page" by simp
    with a show "search_view_of x = Inr (view x)"
      by (auto simp: search_view_of_def view_def)
  qed
  with a s show r: "result = map view ?sorted"
    by (simp add: result_def get_search_history_def get_search_history_try_def
        searches_scan_def page_def)
  show "mset result = image_mset view (mset page)"
    unfolding r by simp
  have "sorted_wrt (\<lambda>a b. the (s_timestamp b) \<le> the (s_timestamp a)) ?sorted"
    by (rule sorted_desc)
  then show "sorted_wrt (\<lambda>a b. sv_timestamp b \<le> sv_timestamp a) result"
    unfolding r by (simp add: sorted_wrt_map view_def)
  show "length result \<le> nat limit"
    unfolding r by (simp add: page_def)
  from a show "untouched w (snd (get_search_history limit w))"
    by (simp add: get_search_history_def get_search_history_try_def searches_scan_def
        untouched_def split: sum.splits)
next
  have "\<not> shd (store_faults w_searches)
      \<and> (\<forall>x \<in> set (searches_table w_searches). s_query x \<noteq> None \<and> s_timestamp x \<noteq> None)
      \<and> map sv_timestamp (fst (get_search_history 1 w_searches)) \<noteq>
          take (nat 1) (rev (sort (map (\<lambda>x. the (s_timestamp x)) (searches_table w_searches))))"
    by (simp add: w_searches_def w0_def search_old_def search_mid_def search_new_def
        get_search_history_def get_search_history_try_def searches_scan_def
        sorted_by_timestamp_def timestamp_key_def sorted_reverse_def search_view_of_def)
  then show "\<exists>w n. \<not> shd (store_faults w)
             \<and> (\<forall>x \<in> set (searches_table w). s_query x \<noteq> None \<and> s_timestamp x \<noteq> None)
             \<and> map sv_timestamp (fst (get_search_history n w)) \<noteq>
                 take (nat n) (rev (sort (map (\<lambda>x. the (s_timestamp x)) (searches_table w))))"
    by blast
qed


theorem get_search_history_sorted_page_witness:
  "\<not> shd (store_faults w_searches)
   \<and> fst (get_search_history 2 w_searches) =
     [\<lparr>sv_search_id = ''safety_20240201_000000'', sv_query = ''safety'',
       sv_timestamp = ''2024-02-01T00:00:00'', sv_result_count = 0\<rparr>,
      \<lparr>sv_search_id = ''pruning_20240101_000000'', sv_query = ''pruning'',
       sv_timestamp = ''2024-01-01T00:00:00'', sv_result_count = 1\<rparr>]
   \<and> s_timestamp (searches_table w_searches ! 2) = Some ''2024-03-01T00:00:00''"
proof -
  have t: "searches_table w_searches = [search_old, search_mid, search_new]"
    by (simp add: w_searches_def)
  have h: "\<not> shd (store_faults w_searches)" by (simp add: w_searches_def w0_def)
  have 1: "\<not> shd (store_faults w_searches) \<and>
      (\<forall>x \<in> set (take (nat 2) (searches_table w_searches)).
          s_query x \<noteq> None \<and> s_timestamp x \<noteq> None)"
    unfolding t using h by (simp add: search_old_def search_mid_def)
  note a = get_search_history_sorted_page [THEN conjunct1, rule_format, OF 1, THEN conjunct1]
  show ?thesis
    unfolding a t using h by (simp add: search_old_def search_mid_def search_new_def)
qed

subsection \<open>\<^verbatim>\<open>search_arxiv\<close>\<close>

lemma save_search_eq:
  "save_search query results w =
     (if shd (store_faults w)
      then (Inl StoreError,
            w\<lparr>clock := stl (stl (clock w)), store_faults := stl (store_faults w)\<rparr>)
      else (Inr (query @ ''_'' @ strftime_id (shd (clock w))),
            w\<lparr>searches_table :=
                 put_by s_search_id
                   \<lparr>s_search_id = query @ ''_'' @ strftime_id (shd (clock w)),
                    s_query = Some query, s_results = Some results,
                    s_timestamp = Some (isoformat (shd (stl (clock w))))\<rparr> (searches_table w),
              store_faults := stl (store_faults w),
              clock := stl (stl (clock w)),
              trace := trace w @
                 [PutSearch \<lparr>s_search_id = query @ ''_'' @ strftime_id (shd (clock w)),
                    s_query = Some query, s_results = Some results,
                    s_timestamp = Some (isoformat (shd (stl (clock w))))\<rparr>]\<rparr>))"
  by (simp add: save_search_def now_def searches_put_item_def Let_def)

lemma search_loop_ok:
  assumes "\<forall>r \<in> set rs. r_title r \<noteq> None \<and> r_url r \<noteq> None"
    and "\<forall>i < length rs. \<not> store_faults w !! i"
  shows "search_loop rs acc w =
     (Inr (acc @ map (\<lambda>r. \<lparr>pd_title = strip (the (r_title r)), pd_url = the (r_url r)\<rparr>) rs),
      w\<lparr>papers_table :=
           foldl (\<lambda>tbl item. put_by p_url item tbl) (papers_table w)
             (map (\<lambda>(r, t). \<lparr>p_url = the (r_url r), p_title = Some (strip (the (r_title r))),
                             p_summary = Some Null, p_timestamp = Some (isoformat t)\<rparr>)
                (zip rs (stake (length rs) (clock w)))),
        store_faults := sdrop (length rs) (store_faults w),
        clock := sdrop (length rs) (clock w),
        trace := trace w @
           map (\<lambda>(r, t). PutPaper \<lparr>p_url = the (r_url r), p_title = Some (strip (the (r_title r))),
                             p_summary = Some Null, p_timestamp = Some (isoformat t)\<rparr>)
                (zip rs (stake (length rs) (clock w)))\<rparr>)"
  using assms
proof (induction rs arbitrary: acc w)
  case Nil
  then show ?case by simp
next
  case (Cons r rs)
  from Cons.prems(1) obtain t u where r: "r_title r = Some t" "r_url r = Some u" by auto
  from Cons.prems(2) have f0: "\<not> shd (store_faults w)" by fastforce
  define w1 where "w1 = snd (save_paper (strip t) u Null w)"
  have sp: "save_paper (strip t) u Null w = (Inr (), w1)"
    using f0 by (simp add: w1_def save_paper_eq)
  have f: "\<forall>i < length rs. \<not> store_faults w1 !! i"
    using Cons.prems(2) f0 by (auto simp: w1_def save_paper_eq)
  have rs: "\<forall>r \<in> set rs. r_title r \<noteq> None \<and> r_url r \<noteq> None"
    using Cons.prems(1) by simp
  show ?case
    using r sp Cons.IH [OF rs f]
    by (simp add: Let_def) (simp add: w1_def save_paper_eq f0)
qed

text \<open>
  C4. Let the provider answer the search, every entry of the answer have a title and a
  url, and the store accept the writes of the call. Then \<^verbatim>\<open>search_arxiv\<close> returns, in
  the order of the answer, the pairs of stripped title and url; it has called the
  provider once, with the query prefixed by \<^verbatim>\<open>site:arxiv.org\<close>, then put one paper
  item for each pair, with the title, the summary \<^verbatim>\<open>None\<close> and the time of that write,
  and last put one search item holding the query and the whole result list. Each
  returned title is the provider's title without a run of whitespace at its front
  and one at its end, and neither begins nor ends with whitespace; each url is the
  provider's.
\<close>

theorem search_arxiv_caches:
  fixes query max_results w resp
  defines "rs \<equiv> (case resp of None \<Rightarrow> [] | Some rs \<Rightarrow> rs)"
  defines "results \<equiv> map (\<lambda>r. \<lparr>pd_title = strip (the (r_title r)), pd_url = the (r_url r)\<rparr>) rs"
  defines "items \<equiv> map (\<lambda>(d, t). \<lparr>p_url = pd_url d, p_title = Some (pd_title d),
                                    p_summary = Some Null, p_timestamp = Some (isoformat t)\<rparr>)
                        (zip results (stake (length results) (clock w)))"
  defines "record \<equiv> \<lparr>s_search_id = query @ ''_'' @ strftime_id (clock w !! length results),
                      s_query = Some query, s_results = Some results,
                      s_timestamp = Some (isoformat (clock w !! Suc (length results)))\<rparr>"
  defines "w' \<equiv> snd (search_arxiv query max_results w)"
  assumes "shd (search_replies w) = Inr resp"
    and "\<forall>r \<in> set rs. r_title r \<noteq> None \<and> r_url r \<noteq> None"
    and "\<forall>i \<le> length rs. \<not> store_faults w !! i"
  shows "fst (search_arxiv query max_results w) = Inr results
       \<and> trace w' = trace w @ [TavilySearch (''site:arxiv.org '' @ query) max_results]
                      @ map PutPaper items @ [PutSearch record]
       \<and> papers_table w' = foldl (\<lambda>tbl item. put_by p_url item tbl) (papers_table w) items
       \<and> searches_table w' = put_by s_search_id record (searches_table w)
       \<and> list_all2
           (\<lambda>r d. pd_url d = the (r_url r)
              \<and> (\<exists>ls ts. set ls \<subseteq> set whitespace \<and> set ts \<subseteq> set whitespace
                    \<and> the (r_title r) = concat ls @ pd_title d @ concat ts)
              \<and> (\<forall>p \<in> set whitespace. \<not> prefix p (pd_title d) \<and> \<not> suffix p (pd_title d)))
           rs results"
proof -
  have trimmed: "list_all2
           (\<lambda>r d. pd_url d = the (r_url r)
              \<and> (\<exists>ls ts. set ls \<subseteq> set whitespace \<and> set ts \<subseteq> set whitespace
                    \<and> the (r_title r) = concat ls @ pd_title d @ concat ts)
              \<and> (\<forall>p \<in> set whitespace. \<not> prefix p (pd_title d) \<and> \<not> suffix p (pd_title d)))
           rs results"
    unfolding results_def list.rel_map list_all2_same
    using strip_removed strip_trimmed by simp
  define w1 where "w1 = snd (tavily_search (''site:arxiv.org '' @ query) max_results w)"
  have ts: "tavily_search (''site:arxiv.org '' @ query) max_results w = (Inr resp, w1)"
    using assms(6) by (simp add: w1_def tavily_search_def)
  have w1: "papers_table w1 = papers_table w" "clock w1 = clock w"
    "store_faults w1 = store_faults w" "searches_table w1 = searches_table w"
    "trace w1 = trace w @ [TavilySearch (''site:arxiv.org '' @ query) max_results]"
    by (simp_all add: w1_def tavily_search_def)
  have f: "\<forall>i < length rs. \<not> store_faults w1 !! i"
    using assms(8) by (simp add: w1)
  define w2 where "w2 = snd (search_loop rs [] w1)"
  have z: "map (\<lambda>(r, t). \<lparr>p_url = the (r_url r), p_title = Some (strip (the (r_title r))),
                             p_summary = Some Null, p_timestamp = Some (isoformat t)\<rparr>)
                (zip rs (stake (length rs) (clock w))) = items"
    by (simp add: items_def results_def zip_map1 case_prod_unfold)
  have loop: "search_loop rs [] w1 = (Inr results, w2)"
    and w2: "papers_table w2 = foldl (\<lambda>tbl item. put_by p_url item tbl) (papers_table w) items"
      "trace w2 = trace w @ [TavilySearch (''site:arxiv.org '' @ query) max_results] @ map PutPaper items"
      "clock w2 = sdrop (length rs) (clock w)"
      "store_faults w2 = sdrop (length rs) (store_faults w)"
      "searches_table w2 = searches_table w"
    unfolding w2_def search_loop_ok [OF assms(7) f]
    by (simp_all add: results_def w1 flip: z) (simp add: case_prod_unfold)
  have g: "\<not> shd (store_faults w2)"
    using assms(8) by (simp add: w2)
  have len: "length results = length rs" by (simp add: results_def)
  have rec: "\<lparr>s_search_id = query @ ''_'' @ strftime_id (shd (clock w2)),
                      s_query = Some query, s_results = Some results,
                      s_timestamp = Some (isoformat (shd (stl (clock w2))))\<rparr> = record"
    by (simp add: record_def w2 len)
  have "search_arxiv query max_results w =
      (case save_search query results w2 of
        (Inl e, w3) \<Rightarrow> (Inl e, w3)
      | (Inr search_id, w3) \<Rightarrow> (Inr results, w3))"
    unfolding search_arxiv_def ts by (simp add: loop flip: rs_def)
  then have "fst (search_arxiv query max_results w) = Inr results
       \<and> trace w' = trace w @ [TavilySearch (''site:arxiv.org '' @ query) max_results]
                      @ map PutPaper items @ [PutSearch record]
       \<and> papers_table w' = foldl (\<lambda>tbl item. put_by p_url item tbl) (papers_table w) items
       \<and> searches_table w' = put_by s_search_id record (searches_table w)"
    unfolding w'_def using g rec
    by (simp add: save_search_eq w2)
  with trimmed show ?thesis by simp
qed

lemma strip_examples:
  "strip ''  Attention Is All You Need '' = ''Attention Is All You Need''"
  "strip ''Adam'' = ''Adam''"
  by code_simp+

theorem search_arxiv_caches_witness:
  "shd (search_replies w_search) =
     Inr (Some [\<lparr>r_title = Some ''  Attention Is All You Need '',
                 r_url = Some ''arxiv.org/abs/1706.03762''\<rparr>,
               \<lparr>r_title = Some ''Adam'', r_url = Some ''arxiv.org/abs/1412.6980''\<rparr>])
   \<and> fst (search_arxiv ''attention'' 5 w_search) =
       Inr [\<lparr>pd_title = ''Attention Is All You Need'', pd_url = ''arxiv.org/abs/1706.03762''\<rparr>,
            \<lparr>pd_title = ''Adam'', pd_url = ''arxiv.org/abs/1412.6980''\<rparr>]
   \<and> trace (snd (search_arxiv ''attention'' 5 w_search)) =
       [TavilySearch ''site:arxiv.org attention'' 5,
        PutPaper \<lparr>p_url = ''arxiv.org/abs/1706.03762'', p_title = Some ''Attention Is All You Need'',
                  p_summary = Some Null, p_timestamp = Some ''2024-05-17T09:03:07.000123''\<rparr>,
        PutPaper \<lparr>p_url = ''arxiv.org/abs/1412.6980'', p_title = Some ''Adam'',
                  p_summary = Some Null, p_timestamp = Some ''2024-05-17T09:03:07.000123''\<rparr>,
        PutSearch \<lparr>s_search_id = ''attention_20240517_090307'', s_query = Some ''attention'',
                   s_results = Some
                     [\<lparr>pd_title = ''Attention Is All You Need'', pd_url = ''arxiv.org/abs/1706.03762''\<rparr>,
                      \<lparr>pd_title = ''Adam'', pd_url = ''arxiv.org/abs/1412.6980''\<rparr>],
                   s_timestamp = Some ''2024-05-17T09:03:07.000123''\<rparr>]"
proof -
  let ?resp = "Some [\<lparr>r_title = Some ''  Attention Is All You Need '',
                 r_url = Some ''arxiv.org/abs/1706.03762''\<rparr>,
               \<lparr>r_title = Some ''Adam'', r_url = Some ''arxiv.org/abs/1412.6980''\<rparr>]"
  have 1: "shd (search_replies w_search) = Inr ?resp"
    by (simp add: w_search_def)
  have 2: "\<forall>r \<in> set (case ?resp of None \<Rightarrow> [] | Some rs \<Rightarrow> rs). r_title r \<noteq> None \<and> r_url r \<noteq> None"
    by simp
  have 3: "\<forall>i \<le> length (case ?resp of None \<Rightarrow> [] | Some rs \<Rightarrow> rs). \<not> store_faults w_search !! i"
    by (simp add: w_search_def w_papers_def w0_def)
  have c: "clock w_search = sconst d0" "trace w_search = []"
    by (simp_all add: w_search_def w_papers_def w0_def)
  show ?thesis
    using search_arxiv_caches [OF 1 2 3, of "''attention''" 5] 1
    by (simp add: c strip_examples isoformat_d0 strftime_id_d0)
qed

subsection \<open>Every paper item keeps its title and timestamp\<close>

lemma put_by_all: "list_all P tbl \<Longrightarrow> P item \<Longrightarrow> list_all P (put_by key item tbl)"
  by (induction tbl) auto

lemma save_paper_wf: "papers_wf w \<Longrightarrow> papers_wf (snd (save_paper t u s w))"
  by (simp add: papers_wf_def save_paper_eq put_by_all paper_wf_def)

lemma attach_summary_wf:
  assumes "papers_wf w" and "c = None \<or> c = lookup_by p_url u (papers_table w)"
  shows "papers_wf (snd (attach_summary c u s w))"
proof (cases c)
  case None
  with assms(1) show ?thesis by (simp add: attach_summary_def save_paper_wf)
next
  case (Some p)
  with assms(2) have l: "lookup_by p_url u (papers_table w) = Some p" by simp
  then have "p \<in> set (papers_table w)" by (simp add: lookup_by_in_set)
  with assms(1) have "paper_wf p" by (simp add: papers_wf_def list_all_iff)
  then have "paper_wf (p\<lparr>p_summary := Some (Str s)\<rparr>)" by (simp add: paper_wf_def)
  with Some l assms(1) show ?thesis
    by (simp add: attach_summary_def papers_update_item_def set_summary_def papers_wf_def
        put_by_all)
qed

lemma summarize_paper_wf:
  assumes "papers_wf w"
  shows "papers_wf (snd (summarize_paper u w))"
proof -
  define c where "c = fst (get_paper u w)"
  define w2 where "w2 = snd (tavily_qna_search
      (''Summarize the key contributions of this ArXiv paper: '' @ u) (snd (get_paper u w)))"
  have tbl: "papers_table w2 = papers_table w" "papers_table (snd (get_paper u w)) = papers_table w"
    by (simp_all add: w2_def tavily_qna_search_def get_paper_eq)
  have c: "c = None \<or> c = lookup_by p_url u (papers_table w2)"
    by (simp add: c_def get_paper_eq tbl)
  have w2: "papers_wf w2" using assms by (simp add: papers_wf_def tbl)
  have "snd (summarize_paper u w) = snd (get_paper u w)
      \<or> snd (summarize_paper u w) = w2
      \<or> snd (summarize_paper u w) = snd (attach_summary c u (projr (shd (qna_replies w))) w2)"
    by (auto simp: summarize_paper_def Let_def c_def w2_def tavily_qna_search_def get_paper_eq
        split: prod.splits sum.splits option.splits)
  then consider
      (hit) "snd (summarize_paper u w) = snd (get_paper u w)"
    | (provider) "snd (summarize_paper u w) = w2"
    | (attach) "snd (summarize_paper u w) =
          snd (attach_summary c u (projr (shd (qna_replies w))) w2)"
    by blast
  then show ?thesis
  proof cases
    case hit
    with assms show ?thesis by (simp add: papers_wf_def tbl)
  next
    case provider
    with w2 show ?thesis by simp
  next
    case attach
    with attach_summary_wf [OF w2 c] show ?thesis by simp
  qed
qed

lemma search_loop_wf: "papers_wf w \<Longrightarrow> papers_wf (snd (search_loop rs acc w))"
proof (induction rs arbitrary: acc w)
  case Nil
  then show ?case by simp
next
  case (Cons r rs)
  show ?case
  proof (cases "r_title r")
    case None
    with Cons.prems show ?thesis by simp
  next
    case t: (Some t)
    show ?thesis
    proof (cases "r_url r")
      case None
      with t Cons.prems show ?thesis by simp
    next
      case u: (Some u)
      obtain x w1 where sp: "save_paper (strip t) u Null w = (x, w1)"
        by fastforce
      with save_paper_wf [OF Cons.prems, of "strip t" u Null] have w1: "papers_wf w1"
        by simp
      show ?thesis
      proof (cases x)
        case (Inl e)
        with t u w1 sp show ?thesis by (simp add: Let_def)
      next
        case (Inr y)
        with t u sp Cons.IH [OF w1] show ?thesis by (simp add: Let_def)
      qed
    qed
  qed
qed

lemma search_arxiv_wf:
  assumes "papers_wf w"
  shows "papers_wf (snd (search_arxiv q m w))"
proof -
  obtain x w1 where ts: "tavily_search (''site:arxiv.org '' @ q) m w = (x, w1)"
    by fastforce
  then have w1: "papers_wf w1"
    using assms by (auto simp: tavily_search_def papers_wf_def)
  show ?thesis
  proof (cases x)
    case (Inl e)
    with ts w1 show ?thesis by (simp add: search_arxiv_def)
  next
    case (Inr resp)
    obtain y w2 where loop:
      "search_loop (case resp of None \<Rightarrow> [] | Some rs \<Rightarrow> rs) [] w1 = (y, w2)"
      by fastforce
    with search_loop_wf [OF w1] have w2: "papers_wf w2"
      by (metis snd_conv)
    show ?thesis
    proof (cases y)
      case (Inl e)
      with ts Inr loop w2 show ?thesis unfolding search_arxiv_def ts by simp
    next
      case results: (Inr results)
      have "papers_wf (snd (save_search q results w2))"
        using w2 by (simp add: save_search_eq papers_wf_def)
      with ts Inr loop results show ?thesis
        unfolding search_arxiv_def ts by (auto split: prod.splits sum.splits)
    qed
  qed
qed

lemma after_wf: "papers_wf w \<Longrightarrow> papers_wf (after c w)"
proof (cases c)
  case (SavePaper t u s)
  assume "papers_wf w" with SavePaper show ?thesis by (simp add: save_paper_wf)
next
  case (GetPaper u)
  assume "papers_wf w" with GetPaper show ?thesis by (simp add: get_paper_eq papers_wf_def)
next
  case (SaveSearch q r)
  assume "papers_wf w" with SaveSearch show ?thesis by (simp add: save_search_eq papers_wf_def)
next
  case (SearchArxiv q m)
  assume "papers_wf w" with SearchArxiv show ?thesis by (simp add: search_arxiv_wf)
next
  case (SummarizePaper u)
  assume "papers_wf w" with SummarizePaper show ?thesis by (simp add: summarize_paper_wf)
next
  case (GetSearchHistory n)
  assume "papers_wf w" with GetSearchHistory show ?thesis
    by (simp add: get_search_history_def get_search_history_try_def searches_scan_def
        papers_wf_def split: sum.splits)
next
  case (GetSavedPapers n)
  assume "papers_wf w" with GetSavedPapers show ?thesis
    by (simp add: get_saved_papers_def get_saved_papers_try_def papers_scan_def
        papers_wf_def split: sum.splits)
qed


lemma calls_wf: "papers_wf w \<Longrightarrow> papers_wf (foldl (\<lambda>w c. after c w) w calls)"
  by (induction calls arbitrary: w) (simp_all add: after_wf)

lemma get_saved_papers_try_wf:
  assumes "papers_wf w"
  shows "fst (get_saved_papers_try limit w) \<noteq> Inl (KeyError k)"
proof -
  have "list_all paper_wf (take (nat limit) (papers_table w))"
    using assms by (auto simp: papers_wf_def list_all_iff dest: in_set_takeD)
  then have "map_err paper_view_of (take (nat limit) (papers_table w)) =
      Inr (map (\<lambda>x. \<lparr>pv_title = the (p_title x), pv_url = p_url x,
                     pv_has_summary = truthy (p_summary x),
                     pv_timestamp = the (p_timestamp x)\<rparr>) (take (nat limit) (papers_table w)))"
    by (intro map_err_ok) (auto simp: list_all_iff paper_wf_def paper_view_of_def)
  then show ?thesis
    by (simp add: get_saved_papers_try_def papers_scan_def)
qed

text \<open>The guard matters: the field update on a url without an item leaves an item
  that has neither title nor timestamp.\<close>

lemma update_without_item:
  "\<not> papers_wf (snd (papers_update_item ''arxiv.org/abs/1'' ''New.'' w0))"
  by (simp add: papers_update_item_def set_summary_def lookup_by_def w0_def papers_wf_def
      paper_wf_def)

text \<open>
  C10. If every item of \<^verbatim>\<open>papers\<close> has a title and a timestamp (the url it has as
  the key of the table), the same holds after any call of this layer and after any
  sequence of calls, whether they return or raise: \<^verbatim>\<open>save_paper\<close> writes all the
  attributes, and \<^verbatim>\<open>summarize_paper\<close> updates the summary only of an item its lookup
  has found. In such a world the projection in \<^verbatim>\<open>get_saved_papers\<close> never raises
  \<^verbatim>\<open>KeyError\<close>. The empty table is such a world.
\<close>

theorem papers_keep_title_and_timestamp:
  assumes "papers_wf w"
  shows "papers_wf (after c w)
       \<and> papers_wf (foldl (\<lambda>w c. after c w) w calls)
       \<and> (\<forall>limit k. fst (get_saved_papers_try limit (foldl (\<lambda>w c. after c w) w calls))
                       \<noteq> Inl (KeyError k))"
  using assms after_wf calls_wf get_saved_papers_try_wf by blast

theorem papers_keep_title_and_timestamp_witness:
  "papers_wf w_search
   \<and> papers_wf (foldl (\<lambda>w c. after c w) w_search
        [SearchArxiv ''attention'' 5, SummarizePaper ''arxiv.org/abs/1706.03762'',
         GetSavedPapers 20])
   \<and> papers_wf w0"
proof -
  have h: "papers_wf w_search"
    by (simp add: papers_wf_def w_search_def w_papers_def paper_wf_def paper_a_def paper_b_def)
  have e: "papers_wf w0" by (simp add: papers_wf_def w0_def)
  from papers_keep_title_and_timestamp [OF h] h e show ?thesis by blast
qed

subsection \<open>Every search item keeps its query and timestamp\<close>

text \<open>
  The scans were described for pages of complete items. Those are the pages this
  layer meets on tables it has written itself: \<^verbatim>\<open>save_search\<close> writes every
  attribute of a search item, and nothing else writes to \<^verbatim>\<open>searches\<close>.
\<close>

lemma search_loop_searches:
  "searches_table (snd (search_loop rs acc w)) = searches_table w"
proof (induction rs arbitrary: acc w)
  case Nil
  show ?case by simp
next
  case (Cons r rs)
  show ?case
  proof (cases "r_title r")
    case None
    then show ?thesis by simp
  next
    case t: (Some t)
    show ?thesis
    proof (cases "r_url r")
      case None
      with t show ?thesis by simp
    next
      case u: (Some u)
      show ?thesis
        using t u Cons.IH
        by (simp add: Let_def save_paper_eq)
    qed
  qed
qed

lemma summarize_paper_searches:
  "searches_table (snd (summarize_paper u w)) = searches_table w"
  by (simp add: summarize_paper_def get_paper_eq tavily_qna_search_def attach_summary_def
      papers_update_item_def save_paper_eq Let_def split: option.splits sum.splits prod.splits)

lemma search_arxiv_searches_wf:
  assumes "searches_wf w"
  shows "searches_wf (snd (search_arxiv q m w))"
proof -
  obtain x w1 where ts: "tavily_search (''site:arxiv.org '' @ q) m w = (x, w1)"
    by fastforce
  then have w1: "searches_table w1 = searches_table w"
    by (auto simp: tavily_search_def)
  show ?thesis
  proof (cases x)
    case (Inl e)
    with ts w1 assms show ?thesis by (simp add: search_arxiv_def searches_wf_def)
  next
    case (Inr resp)
    obtain y w2 where loop:
      "search_loop (case resp of None \<Rightarrow> [] | Some rs \<Rightarrow> rs) [] w1 = (y, w2)"
      by fastforce
    with search_loop_searches [of "case resp of None \<Rightarrow> [] | Some rs \<Rightarrow> rs" "[]" w1]
    have w2: "searches_wf w2"
      using assms w1 by (simp add: searches_wf_def)
    show ?thesis
    proof (cases y)
      case (Inl e)
      with ts Inr loop w2 show ?thesis unfolding search_arxiv_def ts by simp
    next
      case results: (Inr results)
      have "searches_wf (snd (save_search q results w2))"
        using w2 by (simp add: save_search_eq searches_wf_def put_by_all search_wf_def)
      with ts Inr loop results show ?thesis
        unfolding search_arxiv_def ts by (auto split: prod.splits sum.splits)
    qed
  qed
qed

lemma after_searches_wf: "searches_wf w \<Longrightarrow> searches_wf (after c w)"
proof (cases c)
  case (SavePaper t u s)
  assume "searches_wf w" with SavePaper show ?thesis
    by (simp add: save_paper_eq searches_wf_def)
next
  case (GetPaper u)
  assume "searches_wf w" with GetPaper show ?thesis by (simp add: get_paper_eq searches_wf_def)
next
  case (SaveSearch q r)
  assume "searches_wf w" with SaveSearch show ?thesis
    by (simp add: save_search_eq searches_wf_def put_by_all search_wf_def)
next
  case (SearchArxiv q m)
  assume "searches_wf w" with SearchArxiv show ?thesis by (simp add: search_arxiv_searches_wf)
next
  case (SummarizePaper u)
  assume "searches_wf w" with SummarizePaper show ?thesis
    by (simp add: summarize_paper_searches searches_wf_def)
next
  case (GetSearchHistory n)
  assume "searches_wf w" with GetSearchHistory show ?thesis
    by (simp add: get_search_history_def get_search_history_try_def searches_scan_def
        searches_wf_def split: sum.splits)
next
  case (GetSavedPapers n)
  assume "searches_wf w" with GetSavedPapers show ?thesis
    by (simp add: get_saved_papers_def get_saved_papers_try_def papers_scan_def
        searches_wf_def split: sum.splits)
qed

lemma calls_searches_wf:
  "searches_wf w \<Longrightarrow> searches_wf (foldl (\<lambda>w c. after c w) w calls)"
  by (induction calls arbitrary: w) (simp_all add: after_searches_wf)

lemma searches_wf_page:
  "searches_wf w \<Longrightarrow>
     \<forall>x \<in> set (take (nat limit) (searches_table w)). s_query x \<noteq> None \<and> s_timestamp x \<noteq> None"
  by (auto simp: searches_wf_def list_all_iff search_wf_def dest: in_set_takeD)

lemma papers_wf_page:
  "papers_wf w \<Longrightarrow>
     \<forall>x \<in> set (take (nat limit) (papers_table w)). p_title x \<noteq> None \<and> p_timestamp x \<noteq> None"
  by (auto simp: papers_wf_def list_all_iff paper_wf_def dest: in_set_takeD)

end
